theory Spec2Isabelle
  imports Complex_Main "HOL-Library.Multiset"
begin

section \<open>Strings, bytes and integers of the Python runtime\<close>

text \<open>
  A Python \<open>str\<close> is the list of its code points, numbers below 1114112; a lone
  surrogate (55296 to 57343) can be one of them, as in a value of \<open>os.environ\<close> or in a
  parsed JSON document. \<open>bytes\<close> are a list of 8-bit characters, a Python \<open>int\<close> is an
  \<open>int\<close>. \<open>lit\<close> gives the \<open>str\<close> of a literal of the source text.
\<close>

type_synonym pystr = "nat list"

type_synonym bytes = "char list"

definition lit :: "string \<Rightarrow> pystr" where
  "lit s = map of_char s"

text \<open>The decimal digits of a number, and the decimal text of an integer.\<close>

definition digit_char :: "nat \<Rightarrow> nat" where
  "digit_char d = 48 + d"

fun str_nat :: "nat \<Rightarrow> pystr" where
  "str_nat n = (if n < 10 then [digit_char n] else str_nat (n div 10) @ [digit_char (n mod 10)])"

declare str_nat.simps [simp del]

definition str_int :: "int \<Rightarrow> pystr" where
  "str_int i = (if i < 0 then 45 # str_nat (nat (- i)) else str_nat (nat i))"

definition int_digits :: "int \<Rightarrow> nat" where
  "int_digits i = length (str_nat (nat \<bar>i\<bar>))"

text \<open>
  The exceptions that the program can meet. \<open>RuntimeError\<close> carries the message the
  program builds; \<open>EnvError\<close> stands for an exception raised by the network or by the
  file system (\<open>URLError\<close>, \<open>OSError\<close>, a JSON decoding error), with its text. All of
  them are subclasses of \<open>Exception\<close> but \<open>KeyboardInterrupt\<close>, which an interrupted
  call raises and \<open>except Exception\<close> does not catch.
\<close>

datatype pyexn =
    RuntimeError pystr
  | KeyError
  | IndexError
  | TypeError
  | AttributeError
  | ValueError
  | OverflowError
  | UnicodeEncodeError
  | EnvError pystr
  | KeyboardInterrupt

definition is_Exception :: "pyexn \<Rightarrow> bool" where
  "is_Exception e \<longleftrightarrow> e \<noteq> KeyboardInterrupt"

text \<open>
  \<open>str(i)\<close>, which \<open>f"{i}"\<close> calls for an int. CPython refuses to write an int of more
  digits than \<open>sys.get_int_max_str_digits()\<close> (4300 unless it was changed, 0 for no
  limit); it makes the test only for a text of more than 640 characters, sign included.
\<close>

definition str_of_int :: "nat \<Rightarrow> int \<Rightarrow> pyexn + pystr" where
  "str_of_int max_str_digits i =
     (if 640 < int_digits i + (if i < 0 then 1 else 0)
         \<and> 0 < max_str_digits \<and> max_str_digits < int_digits i
      then Inl ValueError
      else Inr (str_int i))"

text \<open>\<open>sep.join(parts)\<close>.\<close>

fun join :: "'a list \<Rightarrow> 'a list list \<Rightarrow> 'a list" where
  "join sep [] = []"
| "join sep [x] = x"
| "join sep (x # y # ys) = x @ sep @ join sep (y # ys)"

section \<open>Formatting a duration\<close>

text \<open>
  \<^verbatim>\<open>
  def format_duration_seconds(seconds: int) -> str:
      hours = seconds // 3600
      minutes = (seconds % 3600) // 60
      parts = []
      if hours:
          parts.append(f"{hours}h")
      if minutes or not parts:
          parts.append(f"{minutes}m")
      return " ".join(parts)
  \<close>
  Python's \<open>//\<close> and \<open>%\<close> with a positive divisor are floor division and its remainder,
  as \<open>div\<close> and \<open>mod\<close> on \<open>int\<close> are. The first parameter is the digit limit of the
  interpreter that runs the function.
\<close>

definition format_duration_seconds :: "nat \<Rightarrow> int \<Rightarrow> pyexn + pystr" where
  "format_duration_seconds max_str_digits seconds =
     (let hours = seconds div 3600;
          minutes = (seconds mod 3600) div 60
      in case (if hours \<noteq> 0
               then (case str_of_int max_str_digits hours of
                       Inl e \<Rightarrow> Inl e
                     | Inr h \<Rightarrow> Inr [h @ lit ''h''])
               else Inr []) of
           Inl e \<Rightarrow> Inl e
         | Inr parts \<Rightarrow>
             (case (if minutes \<noteq> 0 \<or> parts = []
                    then (case str_of_int max_str_digits minutes of
                            Inl e \<Rightarrow> Inl e
                          | Inr m \<Rightarrow> Inr (parts @ [m @ lit ''m'']))
                    else Inr parts) of
                Inl e \<Rightarrow> Inl e
              | Inr parts \<Rightarrow> Inr (join (lit '' '') parts)))"

section \<open>Lists and parsed JSON\<close>

text \<open>\<open>xs[i]\<close>: a negative index counts from the end, an index out of range raises.\<close>

definition py_index :: "'a list \<Rightarrow> int \<Rightarrow> pyexn + 'a" where
  "py_index xs i =
     (if 0 \<le> i \<and> i < int (length xs) then Inr (xs ! nat i)
      else if i < 0 \<and> - int (length xs) \<le> i then Inr (xs ! nat (int (length xs) + i))
      else Inl IndexError)"

text \<open>\<open>xs[1:-1]\<close>: a slice never raises, its bounds are clipped.\<close>

definition middle :: "'a list \<Rightarrow> 'a list" where
  "middle xs = drop 1 (take (length xs - 1) xs)"

text \<open>
  A float of a parsed document: any finite double is a rational number; \<open>json.loads\<close>
  also reads \<open>NaN\<close>, \<open>Infinity\<close> and \<open>-Infinity\<close>.
\<close>

datatype pyfloat = Finite rat | NaN | Infinity bool

text \<open>
  The Python values that \<open>json.loads\<close> returns; \<open>JNull\<close> is \<open>None\<close>. An object lists
  the items of the Python dict, every key once; \<open>map_of\<close> looks a key up.
\<close>

datatype json =
    JNull
  | JBool bool
  | JInt int
  | JFloat pyfloat
  | JStr pystr
  | JArr "json list"
  | JObj "(pystr \<times> json) list"

text \<open>\<open>d.get(key, default)\<close>: only a dict has the method.\<close>

definition py_get :: "json \<Rightarrow> pystr \<Rightarrow> json \<Rightarrow> pyexn + json" where
  "py_get d k dflt =
     (case d of
        JObj kvs \<Rightarrow> Inr (case map_of kvs k of Some v \<Rightarrow> v | None \<Rightarrow> dflt)
      | _ \<Rightarrow> Inl AttributeError)"

text \<open>\<open>d[key]\<close> with a string key, as in \<open>data["routes"]\<close>.\<close>

definition py_getitem_key :: "json \<Rightarrow> pystr \<Rightarrow> pyexn + json" where
  "py_getitem_key d k =
     (case d of
        JObj kvs \<Rightarrow> (case map_of kvs k of Some v \<Rightarrow> Inr v | None \<Rightarrow> Inl KeyError)
      | _ \<Rightarrow> Inl TypeError)"

text \<open>
  \<open>v[0]\<close>: the first element of a list, the first character of a string; the keys of a
  parsed object are strings, so \<open>0\<close> is never one of them; nothing else can be indexed.
\<close>

definition py_getitem_0 :: "json \<Rightarrow> pyexn + json" where
  "py_getitem_0 v =
     (case v of
        JArr xs \<Rightarrow> (case xs of [] \<Rightarrow> Inl IndexError | x # _ \<Rightarrow> Inr x)
      | JStr s \<Rightarrow> (case s of [] \<Rightarrow> Inl IndexError | c # _ \<Rightarrow> Inr (JStr [c]))
      | JObj kvs \<Rightarrow> Inl KeyError
      | _ \<Rightarrow> Inl TypeError)"

text \<open>
  \<open>for x in v\<close>: the elements of a list, the characters of a string, the keys of a dict;
  nothing else can be iterated.
\<close>

definition py_iter :: "json \<Rightarrow> pyexn + json list" where
  "py_iter v =
     (case v of
        JArr xs \<Rightarrow> Inr xs
      | JStr s \<Rightarrow> Inr (map (\<lambda>c. JStr [c]) s)
      | JObj kvs \<Rightarrow> Inr (map (\<lambda>kv. JStr (fst kv)) kvs)
      | _ \<Rightarrow> Inl TypeError)"

text \<open>\<open>xs[i]\<close> where \<open>i\<close> comes from a parsed document: an int, or a bool (an int too).\<close>

definition py_index_json :: "'a list \<Rightarrow> json \<Rightarrow> pyexn + 'a" where
  "py_index_json xs i =
     (case i of
        JInt n \<Rightarrow> py_index xs n
      | JBool b \<Rightarrow> py_index xs (if b then 1 else 0)
      | _ \<Rightarrow> Inl TypeError)"

text \<open>\<open>[f(x) for x in xs]\<close>, stopping at the first element that raises.\<close>

fun map_result :: "('a \<Rightarrow> pyexn + 'b) \<Rightarrow> 'a list \<Rightarrow> pyexn + 'b list" where
  "map_result f [] = Inr []"
| "map_result f (x # xs) =
     (case f x of
        Inl e \<Rightarrow> Inl e
      | Inr y \<Rightarrow> (case map_result f xs of Inl e \<Rightarrow> Inl e | Inr ys \<Rightarrow> Inr (y # ys)))"

section \<open>URL encoding\<close>

text \<open>
  \<open>s.encode("utf-8", "strict")\<close>: one to four bytes for every code point, and
  \<open>UnicodeEncodeError\<close> when the string holds a surrogate. (A number from 1114112 on
  is no code point and no \<open>str\<close> holds one; \<open>encodable\<close> excludes it too.)
\<close>

definition is_surrogate :: "nat \<Rightarrow> bool" where
  "is_surrogate c \<longleftrightarrow> 55296 \<le> c \<and> c \<le> 57343"

definition encodable_char :: "nat \<Rightarrow> bool" where
  "encodable_char c \<longleftrightarrow> c < 1114112 \<and> \<not> is_surrogate c"

definition encodable :: "pystr \<Rightarrow> bool" where
  "encodable s \<longleftrightarrow> (\<forall>c\<in>set s. encodable_char c)"

definition utf8_bytes :: "nat \<Rightarrow> bytes" where
  "utf8_bytes c =
     (if c < 128 then [char_of c]
      else if c < 2048 then [char_of (192 + c div 64), char_of (128 + c mod 64)]
      else if c < 65536 then
        [char_of (224 + c div 4096), char_of (128 + (c div 64) mod 64), char_of (128 + c mod 64)]
      else
        [char_of (240 + c div 262144), char_of (128 + (c div 4096) mod 64),
         char_of (128 + (c div 64) mod 64), char_of (128 + c mod 64)])"

definition encode_utf8 :: "pystr \<Rightarrow> pyexn + bytes" where
  "encode_utf8 s =
     (if encodable s then Inr (concat (map utf8_bytes s)) else Inl UnicodeEncodeError)"

text \<open>
  \<open>urllib.parse.quote(string, safe=safe)\<close> on a \<open>str\<close>: the string is encoded to UTF-8,
  then \<open>quote_from_bytes\<close> keeps every byte that is a letter, a digit, one of \<open>_.-~\<close>
  or an ASCII character of \<open>safe\<close>, and writes \<open>%XX\<close> with two upper-case hexadecimal
  digits for any other byte.
\<close>

definition always_safe :: "char \<Rightarrow> bool" where
  "always_safe b \<longleftrightarrow>
     b \<in> set ''ABCDEFGHIJKLMNOPQRSTUVWXYZabcdefghijklmnopqrstuvwxyz0123456789_.-~''"

definition hex_digit :: "nat \<Rightarrow> nat" where
  "hex_digit d = (if d < 10 then 48 + d else 55 + d)"

definition is_safe :: "pystr \<Rightarrow> char \<Rightarrow> bool" where
  "is_safe safe b \<longleftrightarrow> always_safe b \<or> ((of_char b :: nat) \<in> set safe \<and> (of_char b :: nat) < 128)"

definition quote_byte :: "pystr \<Rightarrow> char \<Rightarrow> pystr" where
  "quote_byte safe b =
     (if is_safe safe b then [of_char b]
      else [37, hex_digit ((of_char b :: nat) div 16), hex_digit ((of_char b :: nat) mod 16)])"

definition quote_from_bytes :: "bytes \<Rightarrow> pystr \<Rightarrow> pystr" where
  "quote_from_bytes bs safe = concat (map (quote_byte safe) bs)"

definition quote :: "pystr \<Rightarrow> pystr \<Rightarrow> pyexn + pystr" where
  "quote s safe =
     (case encode_utf8 s of
        Inl e \<Rightarrow> Inl e
      | Inr bs \<Rightarrow> Inr (quote_from_bytes bs safe))"

text \<open>
  \<^verbatim>\<open>
  def _encode_param(value: str, safe: str = "-._~|,:") -> str:
      return urllib.parse.quote(value, safe=safe)
  \<close>
  Every caller leaves \<open>safe\<close> at its default.
\<close>

definition encode_param_safe :: pystr where
  "encode_param_safe = lit ''-._~|,:''"

definition encode_param :: "pystr \<Rightarrow> pyexn + pystr" where
  "encode_param v = quote v encode_param_safe"

text \<open>
  \<open>"&".join(f"{k}={_encode_param(v)}" ...)\<close> over the items of a dict or of a list of
  pairs, in their order; the first value that cannot be encoded raises.
\<close>

definition query_string :: "(pystr \<times> pystr) list \<Rightarrow> pyexn + pystr" where
  "query_string params =
     (case map_result (\<lambda>kv. case encode_param (snd kv) of
                               Inl e \<Rightarrow> Inl e
                             | Inr v \<Rightarrow> Inr (fst kv @ lit ''='' @ v)) params of
        Inl e \<Rightarrow> Inl e
      | Inr pairs \<Rightarrow> Inr (join (lit ''&'') pairs))"

section \<open>The share link\<close>

text \<open>The module constant \<open>PLACES\<close>; the letter e with an acute accent is the code point 233.\<close>

definition PLACES :: "pystr list" where
  "PLACES =
     [lit ''Royal Monastery of El Escorial, San Lorenzo de El Escorial, Spain'',
      lit ''Royal Palace of Madrid, Madrid, Spain'',
      lit ''Almudena Cathedral, Madrid, Spain'',
      lit ''San Gin'' @ [233] @ lit ''s de Arl'' @ [233] @ lit ''s Church, Madrid, Spain'',
      lit ''Toledo Cathedral, Toledo, Spain'']"

text \<open>
  \<^verbatim>\<open>
  def build_gmaps_share_link(places: List[str], optimized: List[int] = None) -> str:
      origin = places[0]
      destination = places[-1]
      waypoints_list = places[1:-1]
      if optimized is not None:
          waypoints_list = [places[1:-1][i] for i in optimized]
      params = {"api": "1", "origin": origin, "destination": destination,
                "travelmode": "driving"}
      if waypoints_list:
          params["waypoints"] = "|".join(waypoints_list)
      encoded = {k: _encode_param(v) for k, v in params.items()}
      query = "&".join(f"{k}={v}" for k, v in encoded.items())
      return f"https://www.google.com/maps/dir/?{query}"
  \<close>
  \<open>optimized\<close> is a Python value: \<open>None\<close> (\<open>JNull\<close>), a list of ints
  (\<open>JArr (map JInt order)\<close>), or whatever the parsed answer held when \<open>main\<close> passes
  the waypoint order on. A dict keeps its keys in the order of their insertion.
\<close>

definition build_gmaps_share_link :: "pystr list \<Rightarrow> json \<Rightarrow> pyexn + pystr" where
  "build_gmaps_share_link places optimized =
     (case py_index places 0 of
        Inl e \<Rightarrow> Inl e
      | Inr origin \<Rightarrow>
     (case py_index places (- 1) of
        Inl e \<Rightarrow> Inl e
      | Inr destination \<Rightarrow>
     (case (if optimized = JNull then Inr (middle places)
            else (case py_iter optimized of
                    Inl e \<Rightarrow> Inl e
                  | Inr order \<Rightarrow> map_result (py_index_json (middle places)) order)) of
        Inl e \<Rightarrow> Inl e
      | Inr waypoints_list \<Rightarrow>
          (let params = [(lit ''api'', lit ''1''), (lit ''origin'', origin),
                         (lit ''destination'', destination), (lit ''travelmode'', lit ''driving'')];
               params = (if waypoints_list \<noteq> []
                         then params @ [(lit ''waypoints'', join (lit ''|'') waypoints_list)]
                         else params)
           in case query_string params of
                Inl e \<Rightarrow> Inl e
              | Inr query \<Rightarrow> Inr (lit ''https://www.google.com/maps/dir/?'' @ query)))))"

section \<open>Formatting a distance\<close>

text \<open>
  \<open>format_distance_meters\<close> computes with Python floats, which are IEEE 754 binary64
  numbers. Every finite double is a rational number, and each operation returns the
  double nearest to the exact result, ties going to the even significand. The model
  below follows that exactly, on rational numbers: \<open>round_double x\<close> is the nearest number
  with a significand of 53 bits. (Doubles also have a bounded exponent: the conversion
  of a too large int raises, which \<open>float_of_int\<close> models, and no value met here is small
  enough to be subnormal.)
\<close>

definition round_half_even :: "rat \<Rightarrow> int" where
  "round_half_even x =
     (let f = \<lfloor>x\<rfloor>; r = x - of_int f
      in if r < 1 / 2 then f else if 1 / 2 < r then f + 1 else if even f then f else f + 1)"

definition pow2 :: "int \<Rightarrow> rat" where
  "pow2 e = (if 0 \<le> e then 2 ^ nat e else 1 / 2 ^ nat (- e))"

fun log2_floor :: "nat \<Rightarrow> nat" where
  "log2_floor n = (if n < 2 then 0 else Suc (log2_floor (n div 2)))"

declare log2_floor.simps [simp del]

text \<open>The exponent \<open>e\<close> of a positive rational \<open>x\<close>: \<open>2 ^ e \<le> x < 2 ^ (e + 1)\<close>.\<close>

definition exponent :: "rat \<Rightarrow> int" where
  "exponent x =
     (let (a, b) = quotient_of x;
          e0 = int (log2_floor (nat a)) - int (log2_floor (nat b))
      in if pow2 e0 \<le> x then e0 else e0 - 1)"

definition round_double :: "rat \<Rightarrow> rat" where
  "round_double x =
     (if x = 0 then 0
      else (let u = pow2 (exponent \<bar>x\<bar> - 52)
            in sgn x * of_int (round_half_even (\<bar>x\<bar> / u)) * u))"

text \<open>\<open>float(n)\<close>, the conversion that \<open>meters / 1000.0\<close> starts with.\<close>

definition float_of_int :: "int \<Rightarrow> pyexn + rat" where
  "float_of_int n =
     (let r = round_double (of_int n)
      in if 2 ^ 1024 \<le> \<bar>r\<bar> then Inl OverflowError else Inr r)"

text \<open>\<open>f"{km:.1f}"\<close>: the decimal with one digit after the point that is nearest to the
  exact value of the double, ties going to the even digit; the sign of a negative value
  stays, also in front of \<open>0.0\<close>.\<close>

definition format_1f :: "rat \<Rightarrow> pystr" where
  "format_1f km =
     (let q = round_half_even (\<bar>km\<bar> * 10)
      in (if km < 0 then lit ''-'' else []) @ str_int (q div 10) @ lit ''.'' @ str_int (q mod 10))"

text \<open>
  \<^verbatim>\<open>
  def format_distance_meters(meters: int) -> str:
      km = meters / 1000.0
      if km >= 10:
          return f"{int(round(km))} km"
      return f"{km:.1f} km"
  \<close>
  \<open>round(km)\<close> on a float is the nearest integer, ties going to the even one. The first
  parameter is the digit limit of the interpreter.
\<close>

definition format_distance_meters :: "nat \<Rightarrow> int \<Rightarrow> pyexn + pystr" where
  "format_distance_meters max_str_digits meters =
     (case float_of_int meters of
        Inl e \<Rightarrow> Inl e
      | Inr f \<Rightarrow>
          (let km = round_double (f / 1000)
           in if 10 \<le> km
              then (case str_of_int max_str_digits (round_half_even km) of
                      Inl e \<Rightarrow> Inl e
                    | Inr r \<Rightarrow> Inr (r @ lit '' km''))
              else Inr (format_1f km @ lit '' km'')))"

section \<open>The environment of a run\<close>

text \<open>
  What a run reads from outside the program: the environment variable
  \<open>GOOGLE_MAPS_API_KEY\<close>, the digit limit of the interpreter, the answer of
  \<open>_http_get_json\<close> and of \<open>_http_get_binary\<close> to a URL (a value, or the exception
  raised by \<open>urlopen\<close>, by the decoding or by \<open>json.loads\<close>), and whether \<open>open\<close> and
  \<open>write\<close> on a path succeed. Three built-ins of Python whose result the program only
  passes on are parameters too: the text of a float, list or dict inside an f-string,
  the text of an exception, and \<open>int\<close> applied to a string. Standard output is taken to
  accept every line that the program prints.
\<close>

record world =
  api_key_env :: "pystr option"
  int_max_str_digits :: nat
  http_get_json :: "pystr \<Rightarrow> pyexn + json"
  http_get_binary :: "pystr \<Rightarrow> pyexn + bytes"
  write_file :: "pystr \<Rightarrow> bytes \<Rightarrow> pyexn option"
  py_repr :: "json \<Rightarrow> pystr"
  exn_str :: "pyexn \<Rightarrow> pystr"
  int_of_str :: "pystr \<Rightarrow> pyexn + int"

text \<open>What a run does that can be seen from outside, in order.\<close>

datatype event = Print pystr | HttpGet pystr | FileWrite pystr bytes

text \<open>How a run ends: \<open>main\<close> returns, \<open>sys.exit\<close> is called, or an exception is not caught.\<close>

datatype outcome = Returned | Exited int | Raised pyexn

text \<open>
  \<open>f"{v}"\<close> for a value of a parsed document. (An int of a parsed document has passed
  the digit limit when \<open>json.loads\<close> read it, so its text can be written.)
\<close>

definition fstr :: "world \<Rightarrow> json \<Rightarrow> pystr" where
  "fstr w v =
     (case v of
        JNull \<Rightarrow> lit ''None''
      | JBool b \<Rightarrow> (if b then lit ''True'' else lit ''False'')
      | JInt i \<Rightarrow> str_int i
      | JStr s \<Rightarrow> s
      | _ \<Rightarrow> py_repr w v)"

section \<open>The Directions call\<close>

text \<open>The dict that \<open>call_directions\<close> returns, with its three keys.\<close>

record route_info =
  info_waypoint_order :: json
  info_legs :: json
  info_polyline :: json

text \<open>Lines 90 to 108 of the source: the URL of the request.\<close>

definition directions_url :: "pystr \<Rightarrow> pystr \<Rightarrow> pystr \<Rightarrow> pystr list \<Rightarrow> pyexn + pystr" where
  "directions_url api_key origin destination waypoints =
     (let params = [(lit ''origin'', origin), (lit ''destination'', destination),
                    (lit ''mode'', lit ''driving''), (lit ''language'', lit ''en''),
                    (lit ''key'', api_key)];
          params = (if waypoints \<noteq> []
                    then params @ [(lit ''waypoints'',
                                    lit ''optimize:true|'' @ join (lit ''|'') waypoints)]
                    else params)
      in case query_string params of
           Inl e \<Rightarrow> Inl e
         | Inr query \<Rightarrow>
             Inr (lit ''https://maps.googleapis.com/maps/api/directions/json'' @ lit ''?'' @ query))"

text \<open>Lines 111 to 124 of the source: what \<open>call_directions\<close> does with the parsed answer.\<close>

definition directions_result :: "world \<Rightarrow> pystr list \<Rightarrow> json \<Rightarrow> pyexn + route_info" where
  "directions_result w waypoints data =
     (case py_get data (lit ''status'') JNull of
        Inl e \<Rightarrow> Inl e
      | Inr status \<Rightarrow>
          if status \<noteq> JStr (lit ''OK'') then
            (case py_get data (lit ''error_message'') (JStr []) of
               Inl e \<Rightarrow> Inl e
             | Inr msg \<Rightarrow>
                 Inl (RuntimeError (lit ''Directions API error: '' @ fstr w status
                                    @ lit '' - '' @ fstr w msg)))
          else
     (case py_getitem_key data (lit ''routes'') of
        Inl e \<Rightarrow> Inl e
      | Inr routes \<Rightarrow>
     (case py_getitem_0 routes of
        Inl e \<Rightarrow> Inl e
      | Inr route \<Rightarrow>
     (case py_get route (lit ''waypoint_order'')
             (JArr (map (\<lambda>i. JInt (int i)) [0..<length waypoints])) of
        Inl e \<Rightarrow> Inl e
      | Inr wo \<Rightarrow>
     (case py_get route (lit ''legs'') (JArr []) of
        Inl e \<Rightarrow> Inl e
      | Inr lg \<Rightarrow>
     (case py_get route (lit ''overview_polyline'') (JObj []) of
        Inl e \<Rightarrow> Inl e
      | Inr ov \<Rightarrow>
     (case py_get ov (lit ''points'') (JStr []) of
        Inl e \<Rightarrow> Inl e
      | Inr pts \<Rightarrow> Inr \<lparr>info_waypoint_order = wo, info_legs = lg, info_polyline = pts\<rparr>)))))))"

text \<open>
  \<open>call_directions(api_key, places)\<close>: the events of the call (the one HTTP GET, when the
  call gets that far) and its result.
\<close>

definition call_directions :: "world \<Rightarrow> pystr \<Rightarrow> pystr list \<Rightarrow> event list \<times> (pyexn + route_info)" where
  "call_directions w api_key places =
     (case py_index places 0 of
        Inl e \<Rightarrow> ([], Inl e)
      | Inr origin \<Rightarrow>
     (case py_index places (- 1) of
        Inl e \<Rightarrow> ([], Inl e)
      | Inr destination \<Rightarrow>
          (let waypoints = middle places in
           (case directions_url api_key origin destination waypoints of
              Inl e \<Rightarrow> ([], Inl e)
            | Inr url \<Rightarrow>
                ([HttpGet url],
                 (case http_get_json w url of
                    Inl e \<Rightarrow> Inl e
                  | Inr data \<Rightarrow> directions_result w waypoints data))))))"

section \<open>The totals\<close>

text \<open>
  \<open>int(v or 0)\<close>: a falsy value (\<open>None\<close>, \<open>False\<close>, zero, an empty string, list or dict)
  gives \<open>0\<close>; a float is truncated towards zero; \<open>int\<close> does not take a list or a dict.
\<close>

definition int_or_0 :: "world \<Rightarrow> json \<Rightarrow> pyexn + int" where
  "int_or_0 w v =
     (case v of
        JNull \<Rightarrow> Inr 0
      | JBool b \<Rightarrow> Inr (if b then 1 else 0)
      | JInt i \<Rightarrow> Inr i
      | JFloat f \<Rightarrow>
          (case f of
             Finite q \<Rightarrow> Inr (if 0 \<le> q then \<lfloor>q\<rfloor> else \<lceil>q\<rceil>)
           | NaN \<Rightarrow> Inl ValueError
           | Infinity _ \<Rightarrow> Inl OverflowError)
      | JStr s \<Rightarrow> (if s = [] then Inr 0 else int_of_str w s)
      | JArr xs \<Rightarrow> (if xs = [] then Inr 0 else Inl TypeError)
      | JObj kvs \<Rightarrow> (if kvs = [] then Inr 0 else Inl TypeError))"

text \<open>
  The body of the loop over the legs:
  \<^verbatim>\<open>
      dist = leg.get("distance", {}).get("value", 0)
      dur = leg.get("duration", {}).get("value", 0)
      total_meters += int(dist or 0)
      total_seconds += int(dur or 0)
  \<close>
\<close>

definition leg_values :: "world \<Rightarrow> json \<Rightarrow> pyexn + (int \<times> int)" where
  "leg_values w leg =
     (case py_get leg (lit ''distance'') (JObj []) of
        Inl e \<Rightarrow> Inl e
      | Inr d \<Rightarrow>
     (case py_get d (lit ''value'') (JInt 0) of
        Inl e \<Rightarrow> Inl e
      | Inr dist_value \<Rightarrow>
     (case py_get leg (lit ''duration'') (JObj []) of
        Inl e \<Rightarrow> Inl e
      | Inr t \<Rightarrow>
     (case py_get t (lit ''value'') (JInt 0) of
        Inl e \<Rightarrow> Inl e
      | Inr dur_value \<Rightarrow>
     (case int_or_0 w dist_value of
        Inl e \<Rightarrow> Inl e
      | Inr m \<Rightarrow>
     (case int_or_0 w dur_value of
        Inl e \<Rightarrow> Inl e
      | Inr n \<Rightarrow> Inr (m, n)))))))"

text \<open>The loop, with \<open>total_meters\<close> and \<open>total_seconds\<close> as accumulators.\<close>

fun totals :: "world \<Rightarrow> json list \<Rightarrow> int \<Rightarrow> int \<Rightarrow> pyexn + (int \<times> int)" where
  "totals w [] total_meters total_seconds = Inr (total_meters, total_seconds)"
| "totals w (leg # rest) total_meters total_seconds =
     (case leg_values w leg of
        Inl e \<Rightarrow> Inl e
      | Inr (m, n) \<Rightarrow> totals w rest (total_meters + m) (total_seconds + n))"

section \<open>The static map\<close>

text \<open>
  \<^verbatim>\<open>
      def marker_label(i: int) -> str:
          if 1 <= i <= 9:
              return str(i)
          return chr(ord("A") + (i - 10))
  \<close>
  \<open>chr\<close> raises \<open>ValueError\<close> outside the code points and \<open>OverflowError\<close> for a number
  that does not fit a C int.
\<close>

definition marker_label :: "int \<Rightarrow> pyexn + pystr" where
  "marker_label i =
     (if 1 \<le> i \<and> i \<le> 9 then Inr (str_int i)
      else (let cp = 65 + (i - 10)
            in if cp < - 2147483648 \<or> 2147483647 < cp then Inl OverflowError
               else if cp < 0 \<or> 1114111 < cp then Inl ValueError
               else Inr [nat cp]))"

definition enumerate1 :: "'a list \<Rightarrow> (int \<times> 'a) list" where
  "enumerate1 xs = zip (map (\<lambda>i. int i + 1) [0..<length xs]) xs"

text \<open>The body of the loop over the stops: \<open>f"color:blue|label:{label}|{place}"\<close>.\<close>

definition marker_value :: "int \<times> pystr \<Rightarrow> pyexn + pystr" where
  "marker_value ip =
     (case marker_label (fst ip) of
        Inl e \<Rightarrow> Inl e
      | Inr label \<Rightarrow> Inr (lit ''color:blue|label:'' @ label @ lit ''|'' @ snd ip))"

text \<open>
  \<open>save_static_map(api_key, polyline, ordered_places, out_path)\<close>. The marker values are
  made first, then the polyline is quoted (\<open>quote\<close> raises \<open>TypeError\<close> for a value that
  is neither \<open>str\<close> nor \<open>bytes\<close>), then the query is encoded item by item; then come the
  HTTP GET and the writing of the file. A \<open>FileWrite\<close> event stands for an \<open>open\<close> and a
  \<open>write\<close> that both succeeded.
\<close>

definition save_static_map ::
  "world \<Rightarrow> pystr \<Rightarrow> json \<Rightarrow> pystr list \<Rightarrow> pystr \<Rightarrow> event list \<times> (pyexn + pystr)" where
  "save_static_map w api_key polyline ordered_places out_path =
     (case map_result marker_value (enumerate1 ordered_places) of
        Inl e \<Rightarrow> ([], Inl e)
      | Inr marker_values \<Rightarrow>
     (case (case polyline of JStr pl \<Rightarrow> quote pl [] | _ \<Rightarrow> Inl TypeError) of
        Inl e \<Rightarrow> ([], Inl e)
      | Inr quoted \<Rightarrow>
          (let path_value = lit ''enc:'' @ quoted;
               query_items = [(lit ''size'', lit ''800x600''), (lit ''key'', api_key),
                              (lit ''path'', path_value)]
                             @ map (\<lambda>v. (lit ''markers'', v)) marker_values
           in (case query_string query_items of
                 Inl e \<Rightarrow> ([], Inl e)
               | Inr query \<Rightarrow>
                   (let url = lit ''https://maps.googleapis.com/maps/api/staticmap'' @ lit ''?'' @ query
                    in (case http_get_binary w url of
                          Inl e \<Rightarrow> ([HttpGet url], Inl e)
                        | Inr img \<Rightarrow>
                            (case write_file w out_path img of
                               Some e \<Rightarrow> ([HttpGet url], Inl e)
                             | None \<Rightarrow> ([HttpGet url, FileWrite out_path img], Inr out_path))))))))"

section \<open>The run\<close>

text \<open>
  The numbered lines that \<open>main\<close> prints for a list of places. (The number of a stop
  in a list has far fewer than 640 digits, so the digit limit never applies to it.)
\<close>

definition numbered :: "pystr list \<Rightarrow> event list" where
  "numbered ps =
     map (\<lambda>ip. Print (lit ''  '' @ str_int (fst ip) @ lit ''. '' @ snd ip)) (enumerate1 ps)"

definition heading :: "pystr list \<Rightarrow> event list" where
  "heading places =
     [Print (lit ''Spain Trip Planned Stops (from memories):'')] @ numbered places @ [Print []]"

text \<open>Lines 192 to 198 of \<open>main\<close>: no key, no call.\<close>

definition main_without_key :: "pystr list \<Rightarrow> event list \<times> outcome" where
  "main_without_key places =
     (let ev = heading places
               @ [Print (lit ''No GOOGLE_MAPS_API_KEY found. Skipping Directions API call.'')]
      in case build_gmaps_share_link places JNull of
           Inl e \<Rightarrow> (ev, Raised e)
         | Inr share_link \<Rightarrow>
             (ev @ [Print (lit ''Open this link for directions (original order):''),
                    Print share_link,
                    Print (lit ''\<newline>To compute optimized route and download a static map image, ''
                           @ lit ''set GOOGLE_MAPS_API_KEY and re-run.'')],
              Exited 0))"

text \<open>
  Lines 207 and 208 of \<open>main\<close>: the itinerary, start, reordered waypoints, end.
  \<^verbatim>\<open>
      optimized_waypoints = [PLACES[1:-1][i] for i in waypoint_order]
      ordered_places = [PLACES[0]] + optimized_waypoints + [PLACES[-1]]
  \<close>
\<close>

definition ordered_places :: "pystr list \<Rightarrow> json \<Rightarrow> pyexn + pystr list" where
  "ordered_places places waypoint_order =
     (case py_iter waypoint_order of
        Inl e \<Rightarrow> Inl e
      | Inr order \<Rightarrow>
     (case map_result (py_index_json (middle places)) order of
        Inl e \<Rightarrow> Inl e
      | Inr optimized_waypoints \<Rightarrow>
     (case py_index places 0 of
        Inl e \<Rightarrow> Inl e
      | Inr first_place \<Rightarrow>
     (case py_index places (- 1) of
        Inl e \<Rightarrow> Inl e
      | Inr last_place \<Rightarrow> Inr ([first_place] @ optimized_waypoints @ [last_place])))))"

text \<open>
  Lines 219 to 236 of \<open>main\<close>: the report, the share link and the static map, for an
  itinerary and totals already computed. Each \<open>print\<close> comes after the evaluation of its
  argument; \<open>except Exception\<close> catches what \<open>save_static_map\<close> raises unless it is a
  \<open>KeyboardInterrupt\<close>.
\<close>

definition main_report ::
  "world \<Rightarrow> pystr \<Rightarrow> pystr list \<Rightarrow> route_info \<Rightarrow> pystr list \<Rightarrow> int \<Rightarrow> int
     \<Rightarrow> event list \<times> outcome" where
  "main_report w api_key places info itinerary total_meters total_seconds =
     (let ev1 = [Print (lit ''Optimized Itinerary:'')] @ numbered itinerary in
     (case format_distance_meters (int_max_str_digits w) total_meters of
        Inl e \<Rightarrow> (ev1, Raised e)
      | Inr distance_text \<Rightarrow>
     (let ev2 = ev1 @ [Print (lit ''\<newline>Total Distance: '' @ distance_text)] in
     (case format_duration_seconds (int_max_str_digits w) total_seconds of
        Inl e \<Rightarrow> (ev2, Raised e)
      | Inr duration_text \<Rightarrow>
     (let ev3 = ev2 @ [Print (lit ''Total Duration: '' @ duration_text)] in
     (case build_gmaps_share_link places (info_waypoint_order info) of
        Inl e \<Rightarrow> (ev3, Raised e)
      | Inr share_link \<Rightarrow>
     (let ev4 = ev3 @ [Print (lit ''\<newline>Open this link for directions (optimized order):''),
                       Print share_link] in
     (case save_static_map w api_key (info_polyline info) itinerary (lit ''spain_route.png'') of
        (ev5, Inr out_img) \<Rightarrow>
          (ev4 @ ev5 @ [Print (lit ''\<newline>Static route map saved to: '' @ out_img)], Returned)
      | (ev5, Inl e) \<Rightarrow>
          if is_Exception e
          then (ev4 @ ev5 @ [Print (lit ''\<newline>Failed to save static map image: '' @ exn_str w e)],
                Returned)
          else (ev4 @ ev5, Raised e)))))))))"

text \<open>Lines 202 to 217 of \<open>main\<close>, and then the report.\<close>

definition main_after_directions ::
  "world \<Rightarrow> pystr \<Rightarrow> pystr list \<Rightarrow> route_info \<Rightarrow> event list \<times> outcome" where
  "main_after_directions w api_key places info =
     (case ordered_places places (info_waypoint_order info) of
        Inl e \<Rightarrow> ([], Raised e)
      | Inr itinerary \<Rightarrow>
     (case py_iter (info_legs info) of
        Inl e \<Rightarrow> ([], Raised e)
      | Inr leg_list \<Rightarrow>
     (case totals w leg_list 0 0 of
        Inl e \<Rightarrow> ([], Raised e)
      | Inr (total_meters, total_seconds) \<Rightarrow>
          main_report w api_key places info itinerary total_meters total_seconds)))"

text \<open>
  \<open>main\<close>, for any list of places. \<open>not api_key\<close> holds for a variable that is unset and
  for one that is empty.
\<close>

definition main_on :: "pystr list \<Rightarrow> world \<Rightarrow> event list \<times> outcome" where
  "main_on places w =
     (case api_key_env w of
        None \<Rightarrow> main_without_key places
      | Some api_key \<Rightarrow>
          if api_key = [] then main_without_key places
          else
            (case call_directions w api_key places of
               (ev, Inl e) \<Rightarrow> (heading places @ ev, Raised e)
             | (ev, Inr info) \<Rightarrow>
                 (let r = main_after_directions w api_key places info
                  in (heading places @ ev @ fst r, snd r))))"

definition main :: "world \<Rightarrow> event list \<times> outcome" where
  "main w = main_on PLACES w"

section \<open>Notions of the specification\<close>

text \<open>The network calls of a run: the URLs of its HTTP GETs, in order.\<close>

fun http_gets :: "event list \<Rightarrow> pystr list" where
  "http_gets [] = []"
| "http_gets (HttpGet url # evs) = url # http_gets evs"
| "http_gets (Print s # evs) = http_gets evs"
| "http_gets (FileWrite path content # evs) = http_gets evs"

text \<open>The lines that a run prints, in order.\<close>

fun printed :: "event list \<Rightarrow> pystr list" where
  "printed [] = []"
| "printed (Print s # evs) = s # printed evs"
| "printed (HttpGet url # evs) = printed evs"
| "printed (FileWrite path content # evs) = printed evs"

text \<open>
  The percent-encoding of a string that can be encoded: its UTF-8 bytes, each one kept
  or written \<open>%XX\<close>.
\<close>

definition percent_encoded :: "pystr \<Rightarrow> pystr" where
  "percent_encoded v = quote_from_bytes (concat (map utf8_bytes v)) encode_param_safe"

text \<open>
  Standard percent-decoding, the inverse the specification speaks of: in a text of ASCII
  characters, \<open>%\<close> followed by two hexadecimal digits (of either case) is the byte they
  denote and every other character is its own byte; the bytes are then read as UTF-8,
  which fails for a sequence that is not the encoding of a string.
\<close>

definition hex_value :: "nat \<Rightarrow> nat option" where
  "hex_value n =
     (if 48 \<le> n \<and> n \<le> 57 then Some (n - 48)
      else if 65 \<le> n \<and> n \<le> 70 then Some (n - 55)
      else if 97 \<le> n \<and> n \<le> 102 then Some (n - 87)
      else None)"

fun percent_decode :: "pystr \<Rightarrow> bytes" where
  "percent_decode (c # a # b # rest) =
     (if c = 37 then
        (case (hex_value a, hex_value b) of
           (Some h, Some l) \<Rightarrow> char_of (16 * h + l) # percent_decode rest
         | _ \<Rightarrow> char_of c # percent_decode (a # b # rest))
      else char_of c # percent_decode (a # b # rest))"
| "percent_decode cs = map char_of cs"

definition is_cont :: "nat \<Rightarrow> bool" where
  "is_cont n \<longleftrightarrow> 128 \<le> n \<and> n < 192"

text \<open>The first code point of a sequence of byte values, and the number of bytes it takes.\<close>

fun utf8_first :: "nat list \<Rightarrow> (nat \<times> nat) option" where
  "utf8_first [] = None"
| "utf8_first (n # r) =
     (if n < 128 then Some (n, 1)
      else if 192 \<le> n \<and> n < 224 then
        (case r of
           a # _ \<Rightarrow> if is_cont a then Some ((n - 192) * 64 + (a - 128), 2) else None
         | _ \<Rightarrow> None)
      else if 224 \<le> n \<and> n < 240 then
        (case r of
           a # b # _ \<Rightarrow>
             if is_cont a \<and> is_cont b
             then Some ((n - 224) * 4096 + (a - 128) * 64 + (b - 128), 3) else None
         | _ \<Rightarrow> None)
      else if 240 \<le> n \<and> n < 248 then
        (case r of
           a # b # c # _ \<Rightarrow>
             if is_cont a \<and> is_cont b \<and> is_cont c
             then Some ((n - 240) * 262144 + (a - 128) * 4096 + (b - 128) * 64 + (c - 128), 4)
             else None
         | _ \<Rightarrow> None)
      else None)"

text \<open>The least code point that is written with the given number of bytes.\<close>

definition least_of_length :: "nat \<Rightarrow> nat" where
  "least_of_length k = (if k = 2 then 128 else if k = 3 then 2048 else if k = 4 then 65536 else 0)"

fun decode_utf8 :: "bytes \<Rightarrow> pystr option" where
  "decode_utf8 [] = Some []"
| "decode_utf8 (b # bs) =
     (case utf8_first (map of_char (b # bs)) of
        None \<Rightarrow> None
      | Some (c, k) \<Rightarrow>
          if encodable_char c \<and> least_of_length k \<le> c
          then map_option ((#) c) (decode_utf8 (drop (k - 1) bs))
          else None)"

definition unquote :: "pystr \<Rightarrow> pystr option" where
  "unquote t = decode_utf8 (percent_decode t)"

text \<open>The characters that the encoding of a parameter copies.\<close>

definition unreserved :: "nat set" where
  "unreserved = set (lit ''ABCDEFGHIJKLMNOPQRSTUVWXYZabcdefghijklmnopqrstuvwxyz0123456789_.-~'')"

definition extra_safe :: "nat set" where
  "extra_safe = set (lit ''-._~|,:'')"

text \<open>
  A character as the specification describes its encoding: copied when it is unreserved
  or one of the extra safe characters, and otherwise every byte of its UTF-8 encoding
  written \<open>%XX\<close>.
\<close>

definition percent_byte :: "char \<Rightarrow> pystr" where
  "percent_byte b = [37, hex_digit ((of_char b :: nat) div 16), hex_digit ((of_char b :: nat) mod 16)]"

definition percent_char :: "nat \<Rightarrow> pystr" where
  "percent_char c =
     (if c \<in> unreserved \<union> extra_safe then [c] else concat (map percent_byte (utf8_bytes c)))"

text \<open>
  The link as the specification describes it: origin, destination, driving as travel
  mode, and waypoints joined by \<open>|\<close>; the last parameter is left out when there is no
  waypoint.
\<close>

definition spec_share_link :: "pystr \<Rightarrow> pystr \<Rightarrow> pystr list \<Rightarrow> pystr" where
  "spec_share_link origin destination waypoints =
     lit ''https://www.google.com/maps/dir/?api=1''
     @ lit ''&origin='' @ percent_encoded origin
     @ lit ''&destination='' @ percent_encoded destination
     @ lit ''&travelmode=driving''
     @ (if waypoints = [] then []
        else lit ''&waypoints='' @ percent_encoded (join (lit ''|'') waypoints))"

text \<open>
  What a leg contributes to a total, in the words of the specification: the integer
  \<open>value\<close> of its \<open>distance\<close> (or \<open>duration\<close>) object, and \<open>0\<close> when that object is
  missing, when it has no \<open>value\<close>, or when the value is \<open>None\<close>.
\<close>

definition value_amount :: "(pystr \<times> json) list \<Rightarrow> int" where
  "value_amount obj = (case map_of obj (lit ''value'') of Some (JInt n) \<Rightarrow> n | _ \<Rightarrow> 0)"

definition leg_amount :: "pystr \<Rightarrow> json \<Rightarrow> int" where
  "leg_amount field leg =
     (case leg of
        JObj kvs \<Rightarrow> (case map_of kvs field of Some (JObj obj) \<Rightarrow> value_amount obj | _ \<Rightarrow> 0)
      | _ \<Rightarrow> 0)"

text \<open>
  The legs the specification speaks of: a leg is an object; its \<open>distance\<close> and its
  \<open>duration\<close>, when present, are objects; their \<open>value\<close>, when present, is an integer
  or \<open>None\<close>.
\<close>

definition value_ok :: "(pystr \<times> json) list \<Rightarrow> bool" where
  "value_ok obj =
     (case map_of obj (lit ''value'') of
        None \<Rightarrow> True | Some JNull \<Rightarrow> True | Some (JInt n) \<Rightarrow> True | Some _ \<Rightarrow> False)"

definition field_ok :: "(pystr \<times> json) list \<Rightarrow> pystr \<Rightarrow> bool" where
  "field_ok kvs field =
     (case map_of kvs field of None \<Rightarrow> True | Some (JObj obj) \<Rightarrow> value_ok obj | Some _ \<Rightarrow> False)"

definition leg_ok :: "json \<Rightarrow> bool" where
  "leg_ok leg =
     (case leg of
        JObj kvs \<Rightarrow> field_ok kvs (lit ''distance'') \<and> field_ok kvs (lit ''duration'')
      | _ \<Rightarrow> False)"

section \<open>A sample run\<close>

text \<open>
  An answer of the Directions API for \<open>PLACES\<close>, with a reordering of the three
  waypoints and three legs, one of them without a distance and one with the duration
  \<open>None\<close>; and a world that gives this answer, with a key, the default digit limit, an image
  of three bytes and a file system that takes the file.
\<close>

definition sample_legs :: "json list" where
  "sample_legs =
     [JObj [(lit ''distance'', JObj [(lit ''value'', JInt 30000)]),
            (lit ''duration'', JObj [(lit ''value'', JInt 1800)])],
      JObj [(lit ''distance'', JObj [(lit ''value'', JInt 21000)]),
            (lit ''duration'', JObj [(lit ''value'', JNull)])],
      JObj [(lit ''duration'', JObj [(lit ''value'', JInt 1925)])]]"

definition sample_route :: "(pystr \<times> json) list" where
  "sample_route =
     [(lit ''waypoint_order'', JArr [JInt 2, JInt 0, JInt 1]),
      (lit ''legs'', JArr sample_legs),
      (lit ''overview_polyline'', JObj [(lit ''points'', JStr (lit ''a~l~Fjk~uOwHJy@P''))])]"

definition sample_answer :: json where
  "sample_answer = JObj [(lit ''status'', JStr (lit ''OK'')), (lit ''routes'', JArr [JObj sample_route])]"

definition sample_world :: world where
  "sample_world =
     \<lparr>api_key_env = Some (lit ''KEY''),
      int_max_str_digits = 4300,
      http_get_json = (\<lambda>url. Inr sample_answer),
      http_get_binary = (\<lambda>url. Inr ''PNG''),
      write_file = (\<lambda>path content. None),
      py_repr = (\<lambda>v. lit ''?''),
      exn_str = (\<lambda>e. lit ''error''),
      int_of_str = (\<lambda>s. Inl ValueError)\<rparr>"

section \<open>Properties of the decimal text\<close>

lemma lit_Nil: "lit [] = []"
  by (simp add: lit_def)

lemma lit_append: "lit (a @ b) = lit a @ lit b"
  by (simp add: lit_def)

lemma lit_eq_iff: "lit a = lit b \<longleftrightarrow> a = b"
  unfolding lit_def by (rule inj_map_eq_map) (rule inj_of_char)

lemma str_nat_digit: "n < 10 \<Longrightarrow> str_nat n = [digit_char n]"
  by (simp add: str_nat.simps)

lemma str_nat_step: "10 \<le> n \<Longrightarrow> str_nat n = str_nat (n div 10) @ [digit_char (n mod 10)]"
  by (subst str_nat.simps) simp

lemma str_int_0: "str_int 0 = lit ''0''"
  by (simp add: str_int_def str_nat.simps digit_char_def lit_def)

lemma str_int_1: "str_int 1 = lit ''1''"
  by (simp add: str_int_def str_nat.simps digit_char_def lit_def)

lemma length_str_nat_power: "length (str_nat (10 ^ k)) = Suc k"
proof (induction k)
  case 0
  show ?case by (simp add: str_nat_digit)
next
  case (Suc k)
  have "(10::nat) \<le> 10 ^ Suc k" by simp
  then have "str_nat (10 ^ Suc k) = str_nat (10 ^ Suc k div 10) @ [digit_char (10 ^ Suc k mod 10)]"
    by (rule str_nat_step)
  then show ?case using Suc.IH by simp
qed

lemma length_str_nat_le: "n < 10 ^ Suc k \<Longrightarrow> length (str_nat n) \<le> Suc k"
proof (induction k arbitrary: n)
  case 0
  then show ?case by (simp add: str_nat_digit)
next
  case (Suc k)
  show ?case
  proof (cases "n < 10")
    case True
    then show ?thesis by (simp add: str_nat_digit)
  next
    case False
    from Suc.prems have "n div 10 < 10 ^ Suc k" by (simp add: less_mult_imp_div_less mult.commute)
    then have "length (str_nat (n div 10)) \<le> Suc k" by (rule Suc.IH)
    with False show ?thesis by (simp add: str_nat_step)
  qed
qed

lemma int_digits_le: "\<bar>i\<bar> < 10 ^ Suc k \<Longrightarrow> int_digits i \<le> Suc k"
proof -
  assume "\<bar>i\<bar> < 10 ^ Suc k"
  then have "nat \<bar>i\<bar> < 10 ^ Suc k"
    by (simp add: nat_less_iff)
  then show ?thesis unfolding int_digits_def by (rule length_str_nat_le)
qed

lemma int_digits_power: "int_digits (10 ^ k) = Suc k"
proof -
  have "nat \<bar>10 ^ k :: int\<bar> = 10 ^ k" by (simp add: nat_power_eq)
  then show ?thesis unfolding int_digits_def by (simp only: length_str_nat_power)
qed

lemma str_of_int_short: "int_digits i < 640 \<Longrightarrow> str_of_int m i = Inr (str_int i)"
  by (simp add: str_of_int_def)

lemma str_of_int_within: "m = 0 \<or> int_digits i \<le> m \<Longrightarrow> str_of_int m i = Inr (str_int i)"
  by (auto simp add: str_of_int_def)

lemma str_of_int_minutes:
  assumes "0 \<le> i" and "i < 60"
  shows "str_of_int m i = Inr (str_int i)"
proof -
  from assms have "\<bar>i\<bar> < 10 ^ Suc 1" by simp
  then have "int_digits i \<le> Suc 1" by (rule int_digits_le)
  then show ?thesis by (intro str_of_int_short) simp
qed

lemma str_of_int_limit:
  assumes "0 < m" and "m \<le> k" and "640 \<le> k"
  shows "str_of_int m (10 ^ k) = Inl ValueError"
  using assms by (simp add: str_of_int_def int_digits_power)

section \<open>Properties of the duration format\<close>

lemma minutes_range: "0 \<le> (seconds mod 3600) div 60 \<and> (seconds mod 3600) div 60 < (60::int)"
proof -
  have "0 \<le> seconds mod 3600" by simp
  then have lo: "0 \<le> (seconds mod 3600) div 60" by (simp add: pos_imp_zdiv_nonneg_iff)
  have "seconds mod 3600 < 3600" by simp
  then have "seconds mod 3600 \<le> 3599" by simp
  then have "(seconds mod 3600) div 60 \<le> 3599 div 60" by (rule zdiv_mono1) simp
  then have "(seconds mod 3600) div 60 < 60" by simp
  with lo show ?thesis by (rule conjI)
qed

lemma format_duration_seconds_text:
  assumes "str_of_int m (seconds div 3600) = Inr (str_int (seconds div 3600))"
  shows "format_duration_seconds m seconds =
     Inr (if seconds div 3600 \<noteq> 0
          then str_int (seconds div 3600) @ lit ''h'' @
               (if (seconds mod 3600) div 60 \<noteq> 0
                then lit '' '' @ str_int ((seconds mod 3600) div 60) @ lit ''m'' else [])
          else str_int ((seconds mod 3600) div 60) @ lit ''m'')"
proof -
  define H where "H = seconds div 3600"
  define M where "M = (seconds mod 3600) div 60"
  have "str_of_int m ((seconds mod 3600) div 60) = Inr (str_int ((seconds mod 3600) div 60))"
    using minutes_range [of seconds] by (intro str_of_int_minutes) simp_all
  then have m: "str_of_int m M = Inr (str_int M)" by (simp only: M_def)
  from assms have h: "str_of_int m H = Inr (str_int H)" by (simp only: H_def)
  have "format_duration_seconds m seconds =
     Inr (if H \<noteq> 0
          then str_int H @ lit ''h'' @ (if M \<noteq> 0 then lit '' '' @ str_int M @ lit ''m'' else [])
          else str_int M @ lit ''m'')"
    unfolding format_duration_seconds_def Let_def H_def [symmetric] M_def [symmetric]
    using h m by simp
  then show ?thesis unfolding H_def M_def .
qed

lemma format_duration_seconds_raises:
  assumes "0 < m" and "m \<le> k" and "640 \<le> k"
  shows "format_duration_seconds m (3600 * 10 ^ k) = Inl ValueError"
proof -
  have "(3600 * 10 ^ k :: int) div 3600 = 10 ^ k" by simp
  moreover have "(10 ^ k :: int) \<noteq> 0" by simp
  ultimately show ?thesis
    using str_of_int_limit [OF assms]
    by (simp add: format_duration_seconds_def Let_def del: power_eq_0_iff)
qed

text \<open>
  Claim C6, as stated, fails where the hours have more digits than the interpreter
  writes: with the default limit of 4300 digits, \<open>3600 * 10 ^ 4300\<close> seconds are
  \<open>10 ^ 4300\<close> hours, a number of 4301 digits, and \<open>f"{hours}h"\<close> raises \<open>ValueError\<close>.
\<close>

theorem format_duration_seconds_digit_limit:
  "format_duration_seconds 4300 (3600 * 10 ^ 4300) = Inl ValueError"
  by (rule format_duration_seconds_raises) simp_all

text \<open>
  Claim C6, amended. For every number of seconds whose hours \<open>H = seconds div 3600\<close>
  have no more digits than the limit of the interpreter (or when there is no limit), with
  \<open>M = (seconds mod 3600) div 60\<close>, the result holds the hours part \<open>Hh\<close> exactly when
  \<open>H\<close> is not zero and the minutes part \<open>Mm\<close> exactly when \<open>M\<close> is not zero or \<open>H\<close> is
  zero; the hours part comes first and one space separates the two parts when both are
  there. Zero seconds give \<open>0m\<close> and 3600 seconds give \<open>1h\<close>, whatever the limit.
\<close>

theorem format_duration_seconds_parts:
  assumes "max_str_digits = 0 \<or> int_digits (seconds div 3600) \<le> max_str_digits"
  shows "format_duration_seconds max_str_digits seconds =
     Inr (if seconds div 3600 \<noteq> 0
          then str_int (seconds div 3600) @ lit ''h'' @
               (if (seconds mod 3600) div 60 \<noteq> 0
                then lit '' '' @ str_int ((seconds mod 3600) div 60) @ lit ''m'' else [])
          else str_int ((seconds mod 3600) div 60) @ lit ''m'')
   \<and> format_duration_seconds max_str_digits 0 = Inr (lit ''0m'')
   \<and> format_duration_seconds max_str_digits 3600 = Inr (lit ''1h'')"
proof -
  have a: "format_duration_seconds max_str_digits seconds =
     Inr (if seconds div 3600 \<noteq> 0
          then str_int (seconds div 3600) @ lit ''h'' @
               (if (seconds mod 3600) div 60 \<noteq> 0
                then lit '' '' @ str_int ((seconds mod 3600) div 60) @ lit ''m'' else [])
          else str_int ((seconds mod 3600) div 60) @ lit ''m'')"
    using assms by (intro format_duration_seconds_text str_of_int_within)
  have "str_of_int max_str_digits (0 div 3600) = Inr (str_int (0 div 3600))"
    by (intro str_of_int_minutes) simp_all
  then have b: "format_duration_seconds max_str_digits 0 = Inr (lit ''0m'')"
    using format_duration_seconds_text [of max_str_digits 0]
    by (simp add: str_int_0 lit_append [symmetric] del: lit_append)
  have "str_of_int max_str_digits (3600 div 3600) = Inr (str_int (3600 div 3600))"
    by (intro str_of_int_minutes) simp_all
  then have c: "format_duration_seconds max_str_digits 3600 = Inr (lit ''1h'')"
    using format_duration_seconds_text [of max_str_digits 3600]
    by (simp add: str_int_1 lit_append [symmetric])
  from a b c show ?thesis by (intro conjI)
qed

lemma str_int_small:
  "str_int 2 = lit ''2''" "str_int 59 = lit ''59''" "str_int 62 = lit ''62''"
  by (simp_all add: str_int_def str_nat.simps digit_char_def lit_def)

theorem format_duration_seconds_parts_witness:
  "format_duration_seconds 4300 3725 = Inr (lit ''1h 2m'')
   \<and> format_duration_seconds 4300 59 = Inr (lit ''0m'')
   \<and> format_duration_seconds 0 7200 = Inr (lit ''2h'')"
proof -
  have d: "int_digits 1 \<le> 4300" "int_digits 0 \<le> 4300"
    by (simp_all add: int_digits_def str_nat_digit)
  have "format_duration_seconds 4300 3725 = Inr (lit ''1h 2m'')"
    using format_duration_seconds_parts [of 4300 3725] d
    by (simp add: str_int_1 str_int_small lit_def)
  moreover have "format_duration_seconds 4300 59 = Inr (lit ''0m'')"
    using format_duration_seconds_parts [of 4300 59] d
    by (simp add: str_int_0 lit_def)
  moreover have "format_duration_seconds 0 7200 = Inr (lit ''2h'')"
    using format_duration_seconds_parts [of 0 7200]
    by (simp add: str_int_small lit_def)
  ultimately show ?thesis by (intro conjI)
qed

section \<open>Properties of the URL encoding\<close>

lemma of_char_char_of: "n < 256 \<Longrightarrow> (of_char (char_of n :: char) :: nat) = n"
  by simp

lemma char_of_in_lit: "n < 256 \<Longrightarrow> char_of n \<in> set s \<longleftrightarrow> n \<in> set (lit s)"
proof -
  assume n: "n < 256"
  have "n \<in> set (lit s) \<longleftrightarrow> (\<exists>b\<in>set s. n = of_char b)"
    by (auto simp add: lit_def)
  also have "\<dots> \<longleftrightarrow> (\<exists>b\<in>set s. char_of n = b)"
  proof
    assume "\<exists>b\<in>set s. n = of_char b"
    then obtain b where "b \<in> set s" "n = of_char b" by blast
    then show "\<exists>b\<in>set s. char_of n = b" by simp
  next
    assume "\<exists>b\<in>set s. char_of n = b"
    then have "char_of n \<in> set s" by simp
    moreover have "n = of_char (char_of n :: char)" using n by simp
    ultimately show "\<exists>b\<in>set s. n = of_char b" by blast
  qed
  finally show ?thesis by auto
qed

lemma always_safe_ascii: "always_safe b \<Longrightarrow> (of_char b :: nat) < 128"
proof -
  have "list_all (\<lambda>b. (of_char b :: nat) < 128)
          ''ABCDEFGHIJKLMNOPQRSTUVWXYZabcdefghijklmnopqrstuvwxyz0123456789_.-~''"
    by code_simp
  then show "always_safe b \<Longrightarrow> (of_char b :: nat) < 128"
    unfolding always_safe_def list_all_iff by blast
qed

lemma is_safe_ascii: "is_safe safe b \<Longrightarrow> (of_char b :: nat) < 128"
  unfolding is_safe_def using always_safe_ascii by blast

lemma is_safe_char_of:
  assumes "c < 128"
  shows "is_safe encode_param_safe (char_of c) \<longleftrightarrow> c \<in> unreserved \<union> extra_safe"
proof -
  from assms have c: "c < 256" by simp
  have "always_safe (char_of c) \<longleftrightarrow> c \<in> unreserved"
    unfolding always_safe_def unreserved_def using c by (rule char_of_in_lit)
  moreover have "(of_char (char_of c :: char) :: nat) = c" using c by simp
  ultimately show ?thesis
    using assms by (simp add: is_safe_def extra_safe_def encode_param_safe_def)
qed

lemma unreserved_ascii: "c \<in> unreserved \<union> extra_safe \<Longrightarrow> c < 128"
proof -
  have "list_all (\<lambda>c. c < 128)
          (lit ''ABCDEFGHIJKLMNOPQRSTUVWXYZabcdefghijklmnopqrstuvwxyz0123456789_.-~'')"
    by code_simp
  moreover have "list_all (\<lambda>c. c < 128) (lit ''-._~|,:'')"
    by code_simp
  ultimately show "c \<in> unreserved \<union> extra_safe \<Longrightarrow> c < 128"
    unfolding unreserved_def extra_safe_def list_all_iff by blast
qed

lemma percent_not_safe: "37 \<notin> unreserved \<union> extra_safe"
proof -
  have "list_all (\<lambda>c. c \<noteq> 37)
          (lit ''ABCDEFGHIJKLMNOPQRSTUVWXYZabcdefghijklmnopqrstuvwxyz0123456789_.-~'')"
    by code_simp
  moreover have "list_all (\<lambda>c. c \<noteq> 37) (lit ''-._~|,:'')"
    by code_simp
  ultimately show ?thesis
    unfolding unreserved_def extra_safe_def list_all_iff by blast
qed

lemma hex_value_hex_digit: "d < 16 \<Longrightarrow> hex_value (hex_digit d) = Some d"
  by (simp add: hex_value_def hex_digit_def)

lemma of_char_div_16: "(of_char b :: nat) div 16 < 16"
proof -
  have "(of_char b :: nat) < 256" by simp
  then show ?thesis by arith
qed

lemma percent_decode_plain:
  "c \<noteq> 37 \<Longrightarrow> percent_decode (c # rest) = char_of c # percent_decode rest"
  by (cases "c # rest" rule: percent_decode.cases) auto

lemma percent_decode_escape:
  "percent_decode (37 # hex_digit ((of_char b :: nat) div 16) # hex_digit ((of_char b :: nat) mod 16) # rest)
     = b # percent_decode rest"
  by (simp add: hex_value_hex_digit of_char_div_16)

lemma is_safe_not_percent:
  assumes "is_safe encode_param_safe b"
  shows "(of_char b :: nat) \<noteq> 37"
proof -
  from assms have a: "(of_char b :: nat) < 128" by (rule is_safe_ascii)
  have "char_of (of_char b :: nat) = b" by simp
  with assms have "is_safe encode_param_safe (char_of (of_char b :: nat))" by simp
  with a have "(of_char b :: nat) \<in> unreserved \<union> extra_safe"
    by (simp only: is_safe_char_of)
  with percent_not_safe show ?thesis by metis
qed

lemma percent_decode_quote_byte:
  "percent_decode (quote_byte encode_param_safe b @ rest) = b # percent_decode rest"
proof (cases "is_safe encode_param_safe b")
  case True
  then show ?thesis
    using percent_decode_plain [OF is_safe_not_percent [OF True], of rest]
    by (simp add: quote_byte_def del: percent_decode.simps)
next
  case False
  then show ?thesis
    using percent_decode_escape [of b rest]
    by (simp add: quote_byte_def del: percent_decode.simps)
qed

lemma quote_from_bytes_Nil: "quote_from_bytes [] safe = []"
  by (simp add: quote_from_bytes_def)

lemma quote_from_bytes_Cons: "quote_from_bytes (b # bs) safe = quote_byte safe b @ quote_from_bytes bs safe"
  by (simp add: quote_from_bytes_def)

lemma quote_from_bytes_append:
  "quote_from_bytes (as @ bs) safe = quote_from_bytes as safe @ quote_from_bytes bs safe"
  by (simp add: quote_from_bytes_def)

lemma percent_decode_quoted:
  "percent_decode (quote_from_bytes bs encode_param_safe @ rest) = bs @ percent_decode rest"
proof (induction bs)
  case Nil
  show ?case by (simp add: quote_from_bytes_Nil)
next
  case (Cons b bs)
  have "percent_decode (quote_from_bytes (b # bs) encode_param_safe @ rest)
          = percent_decode (quote_byte encode_param_safe b @ (quote_from_bytes bs encode_param_safe @ rest))"
    by (simp add: quote_from_bytes_Cons)
  also have "\<dots> = b # percent_decode (quote_from_bytes bs encode_param_safe @ rest)"
    by (rule percent_decode_quote_byte)
  finally show ?case using Cons.IH by simp
qed

lemma percent_decode_quoted_all: "percent_decode (quote_from_bytes bs encode_param_safe) = bs"
  using percent_decode_quoted [of bs "[]"] by simp

lemma decode_utf8_1:
  assumes "c < 128"
  shows "decode_utf8 (utf8_bytes c @ rest) = map_option ((#) c) (decode_utf8 rest)"
  using assms by (simp add: utf8_bytes_def encodable_char_def is_surrogate_def least_of_length_def)

lemma decode_utf8_2:
  assumes "128 \<le> c" and "c < 2048"
  shows "decode_utf8 (utf8_bytes c @ rest) = map_option ((#) c) (decode_utf8 rest)"
proof -
  from assms have a: "192 + c div 64 < 224" "128 + c mod 64 < 192" by arith+
  then have b: "192 + c div 64 < 256" "128 + c mod 64 < 256" by simp_all
  have v: "(192 + c div 64 - 192) * 64 + (128 + c mod 64 - 128) = c" by simp
  show ?thesis
    using assms a
    by (simp add: utf8_bytes_def of_char_char_of [OF b(1)] of_char_char_of [OF b(2)] is_cont_def
        encodable_char_def is_surrogate_def least_of_length_def
        del: of_char_of)
qed

lemma split_3:
  fixes c :: nat
  shows "c div 4096 * 4096 + (c div 64) mod 64 * 64 + c mod 64 = c"
proof -
  have "c div 64 = (c div 64) div 64 * 64 + (c div 64) mod 64" by simp
  moreover have "(c div 64) div 64 = c div 4096" by (simp add: div_mult2_eq)
  ultimately have "c div 64 = c div 4096 * 64 + (c div 64) mod 64" by simp
  moreover have "c = c div 64 * 64 + c mod 64" by simp
  ultimately have "c = (c div 4096 * 64 + (c div 64) mod 64) * 64 + c mod 64" by simp
  then show ?thesis by (simp add: algebra_simps)
qed

lemma split_4:
  fixes c :: nat
  shows "c div 262144 * 262144 + (c div 4096) mod 64 * 4096 + (c div 64) mod 64 * 64 + c mod 64 = c"
proof -
  have "c div 4096 = (c div 4096) div 64 * 64 + (c div 4096) mod 64" by simp
  moreover have "(c div 4096) div 64 = c div 262144" by (simp add: div_mult2_eq)
  ultimately have "c div 4096 = c div 262144 * 64 + (c div 4096) mod 64" by simp
  then have "c div 4096 * 4096 = c div 262144 * 262144 + (c div 4096) mod 64 * 4096"
    by (simp add: algebra_simps)
  with split_3 [of c] show ?thesis by simp
qed

lemma utf8_first_3:
  assumes "224 \<le> n" and "n < 240" and "is_cont a" and "is_cont b"
  shows "utf8_first (n # a # b # r) = Some ((n - 224) * 4096 + (a - 128) * 64 + (b - 128), 3)"
  using assms by simp

lemma utf8_first_4:
  assumes "240 \<le> n" and "n < 248" and "is_cont a" and "is_cont b" and "is_cont d"
  shows "utf8_first (n # a # b # d # r)
           = Some ((n - 240) * 262144 + (a - 128) * 4096 + (b - 128) * 64 + (d - 128), 4)"
  using assms by simp

lemma is_cont_mod: "is_cont (128 + x mod 64)"
  by (simp add: is_cont_def)

lemma of_char_cont: "(of_char (char_of (128 + x mod 64 :: nat) :: char) :: nat) = 128 + x mod 64"
proof -
  have "128 + x mod 64 < 256"
    using mod_less_divisor [of 64 x] by linarith
  then show ?thesis by (rule of_char_char_of)
qed

lemma decode_utf8_3:
  assumes "2048 \<le> c" and "c < 65536" and "\<not> is_surrogate c"
  shows "decode_utf8 (utf8_bytes c @ rest) = map_option ((#) c) (decode_utf8 rest)"
proof -
  define n where "n = 224 + c div 4096"
  have "c div 4096 < 16" using assms(2) by (simp add: div_less_iff_less_mult)
  then have n: "224 \<le> n" "n < 240" "n < 256" by (simp_all add: n_def)
  have bytes: "utf8_bytes c = [char_of n, char_of (128 + (c div 64) mod 64), char_of (128 + c mod 64)]"
    using assms(1,2) by (simp add: utf8_bytes_def n_def)
  have vals: "map of_char (utf8_bytes c @ rest)
                = n # (128 + (c div 64) mod 64) # (128 + c mod 64) # map of_char rest"
    unfolding bytes by (simp only: map_append list.map append_Cons append_Nil
        of_char_cont of_char_char_of [OF n(3)])
  have "utf8_first (map of_char (utf8_bytes c @ rest))
          = Some ((n - 224) * 4096 + (128 + (c div 64) mod 64 - 128) * 64
                  + (128 + c mod 64 - 128), 3)"
    unfolding vals using n(1,2) is_cont_mod is_cont_mod by (rule utf8_first_3)
  also have "(n - 224) * 4096 + (128 + (c div 64) mod 64 - 128) * 64 + (128 + c mod 64 - 128) = c"
    using split_3 [of c] by (simp add: n_def)
  finally have first: "utf8_first (map of_char (utf8_bytes c @ rest)) = Some (c, 3)" .
  have ok: "encodable_char c \<and> least_of_length 3 \<le> c"
    using assms by (simp add: encodable_char_def least_of_length_def)
  have "decode_utf8 (utf8_bytes c @ rest)
          = decode_utf8 (char_of n # ([char_of (128 + (c div 64) mod 64), char_of (128 + c mod 64)] @ rest))"
    unfolding bytes by simp
  also have "\<dots> = map_option ((#) c) (decode_utf8 rest)"
    apply (subst decode_utf8.simps)
    using first ok unfolding bytes by simp
  finally show ?thesis .
qed

lemma decode_utf8_4:
  assumes "65536 \<le> c" and "c < 1114112"
  shows "decode_utf8 (utf8_bytes c @ rest) = map_option ((#) c) (decode_utf8 rest)"
proof -
  define n where "n = 240 + c div 262144"
  have "c div 262144 < 8" using assms(2) by (simp add: div_less_iff_less_mult)
  then have n: "240 \<le> n" "n < 248" "n < 256" by (simp_all add: n_def)
  have bytes: "utf8_bytes c = [char_of n, char_of (128 + (c div 4096) mod 64),
                               char_of (128 + (c div 64) mod 64), char_of (128 + c mod 64)]"
    using assms(1) by (simp add: utf8_bytes_def n_def)
  have vals: "map of_char (utf8_bytes c @ rest)
                = n # (128 + (c div 4096) mod 64) # (128 + (c div 64) mod 64) # (128 + c mod 64)
                    # map of_char rest"
    unfolding bytes by (simp only: map_append list.map append_Cons append_Nil
        of_char_cont of_char_char_of [OF n(3)])
  have "utf8_first (map of_char (utf8_bytes c @ rest))
          = Some ((n - 240) * 262144 + (128 + (c div 4096) mod 64 - 128) * 4096
                  + (128 + (c div 64) mod 64 - 128) * 64 + (128 + c mod 64 - 128), 4)"
    unfolding vals using n(1,2) is_cont_mod is_cont_mod is_cont_mod by (rule utf8_first_4)
  also have "(n - 240) * 262144 + (128 + (c div 4096) mod 64 - 128) * 4096
               + (128 + (c div 64) mod 64 - 128) * 64 + (128 + c mod 64 - 128) = c"
    using split_4 [of c] by (simp add: n_def)
  finally have first: "utf8_first (map of_char (utf8_bytes c @ rest)) = Some (c, 4)" .
  have ok: "encodable_char c \<and> least_of_length 4 \<le> c"
    using assms by (simp add: encodable_char_def least_of_length_def is_surrogate_def)
  have "decode_utf8 (utf8_bytes c @ rest)
          = decode_utf8 (char_of n # ([char_of (128 + (c div 4096) mod 64),
                char_of (128 + (c div 64) mod 64), char_of (128 + c mod 64)] @ rest))"
    unfolding bytes by simp
  also have "\<dots> = map_option ((#) c) (decode_utf8 rest)"
    apply (subst decode_utf8.simps)
    using first ok unfolding bytes by simp
  finally show ?thesis .
qed

lemma decode_utf8_char:
  assumes "encodable_char c"
  shows "decode_utf8 (utf8_bytes c @ rest) = map_option ((#) c) (decode_utf8 rest)"
proof -
  from assms have c: "c < 1114112" "\<not> is_surrogate c" by (simp_all add: encodable_char_def)
  consider "c < 128" | "128 \<le> c \<and> c < 2048" | "2048 \<le> c \<and> c < 65536" | "65536 \<le> c"
    by linarith
  then show ?thesis
  proof cases
    case 1 then show ?thesis by (rule decode_utf8_1)
  next
    case 2 then show ?thesis using decode_utf8_2 by blast
  next
    case 3 then show ?thesis using decode_utf8_3 c(2) by blast
  next
    case 4 then show ?thesis using decode_utf8_4 c(1) by blast
  qed
qed

lemma encodable_Nil: "encodable []"
  by (simp add: encodable_def)

lemma encodable_Cons: "encodable (c # v) \<longleftrightarrow> encodable_char c \<and> encodable v"
  by (simp add: encodable_def)

lemma encodable_append: "encodable (a @ b) \<longleftrightarrow> encodable a \<and> encodable b"
  by (auto simp add: encodable_def)

lemma decode_utf8_encoded:
  "encodable v \<Longrightarrow> decode_utf8 (concat (map utf8_bytes v)) = Some v"
proof (induction v)
  case Nil
  show ?case by simp
next
  case (Cons c v)
  then have c: "encodable_char c" and v: "encodable v" by (simp_all add: encodable_Cons)
  have "decode_utf8 (concat (map utf8_bytes (c # v)))
          = decode_utf8 (utf8_bytes c @ concat (map utf8_bytes v))"
    by (simp del: decode_utf8.simps)
  also have "\<dots> = map_option ((#) c) (decode_utf8 (concat (map utf8_bytes v)))"
    using c by (rule decode_utf8_char)
  also have "\<dots> = Some (c # v)" using Cons.IH [OF v] by simp
  finally show ?case .
qed

lemma encode_param_cases:
  "encode_param v = (if encodable v then Inr (percent_encoded v) else Inl UnicodeEncodeError)"
  by (simp add: encode_param_def quote_def encode_utf8_def percent_encoded_def)

lemma unquote_percent_encoded: "encodable v \<Longrightarrow> unquote (percent_encoded v) = Some v"
  by (simp add: unquote_def percent_encoded_def percent_decode_quoted_all decode_utf8_encoded)

lemma percent_encoded_Nil: "percent_encoded [] = []"
  by (simp add: percent_encoded_def quote_from_bytes_Nil)

lemma percent_encoded_append: "percent_encoded (a @ b) = percent_encoded a @ percent_encoded b"
  by (simp add: percent_encoded_def quote_from_bytes_append)

lemma percent_encoded_Cons: "percent_encoded (c # v) = percent_encoded [c] @ percent_encoded v"
  using percent_encoded_append [of "[c]" v] by simp

lemma utf8_bytes_high:
  assumes "128 \<le> c" and "c < 1114112" and "b \<in> set (utf8_bytes c)"
  shows "128 \<le> (of_char b :: nat)"
proof -
  have cont: "\<And>x. 128 \<le> (of_char (char_of (128 + x mod 64 :: nat) :: char) :: nat)"
    by (simp add: of_char_cont del: of_char_of)
  consider "c < 2048" | "2048 \<le> c \<and> c < 65536" | "65536 \<le> c" by linarith
  then show ?thesis
  proof cases
    case 1
    then have "c div 64 < 32" by (simp add: div_less_iff_less_mult)
    then have "192 + c div 64 < 256" by simp
    then have "(of_char (char_of (192 + c div 64) :: char) :: nat) = 192 + c div 64"
      by (rule of_char_char_of)
    then have "128 \<le> (of_char (char_of (192 + c div 64) :: char) :: nat)" by simp
    with assms 1 cont show ?thesis by (auto simp add: utf8_bytes_def simp del: of_char_of)
  next
    case 2
    then have "c div 4096 < 16" by (simp add: div_less_iff_less_mult)
    then have "224 + c div 4096 < 256" by simp
    then have "(of_char (char_of (224 + c div 4096) :: char) :: nat) = 224 + c div 4096"
      by (rule of_char_char_of)
    then have "128 \<le> (of_char (char_of (224 + c div 4096) :: char) :: nat)" by simp
    with assms 2 cont show ?thesis by (auto simp add: utf8_bytes_def simp del: of_char_of)
  next
    case 3
    from assms(2) have "c div 262144 < 8" by (simp add: div_less_iff_less_mult)
    then have "240 + c div 262144 < 256" by simp
    then have "(of_char (char_of (240 + c div 262144) :: char) :: nat) = 240 + c div 262144"
      by (rule of_char_char_of)
    then have "128 \<le> (of_char (char_of (240 + c div 262144) :: char) :: nat)" by simp
    with assms 3 cont show ?thesis by (auto simp add: utf8_bytes_def simp del: of_char_of)
  qed
qed

lemma quote_byte_high:
  "128 \<le> (of_char b :: nat) \<Longrightarrow> quote_byte safe b = percent_byte b"
  using is_safe_ascii [of safe b] by (auto simp add: quote_byte_def percent_byte_def)

lemma percent_encoded_char:
  assumes "encodable_char c"
  shows "percent_encoded [c] = percent_char c"
proof (cases "c < 128")
  case True
  then have "utf8_bytes c = [char_of c]" by (simp add: utf8_bytes_def)
  moreover have "(of_char (char_of c :: char) :: nat) = c" using True by simp
  ultimately show ?thesis
    using is_safe_char_of [OF True]
    by (simp add: percent_encoded_def quote_from_bytes_def quote_byte_def percent_char_def
        percent_byte_def del: of_char_of)
next
  case False
  then have hi: "128 \<le> c" by simp
  from assms have lt: "c < 1114112" by (simp add: encodable_char_def)
  from False have notin: "c \<notin> unreserved \<union> extra_safe" using unreserved_ascii by blast
  have m: "map (quote_byte encode_param_safe) (utf8_bytes c) = map percent_byte (utf8_bytes c)"
    using utf8_bytes_high [OF hi lt] by (intro map_cong refl quote_byte_high)
  show ?thesis
    using notin by (simp add: percent_encoded_def quote_from_bytes_def percent_char_def m)
qed

lemma percent_encoded_chars: "encodable v \<Longrightarrow> percent_encoded v = concat (map percent_char v)"
proof (induction v)
  case Nil
  show ?case by (simp add: percent_encoded_Nil)
next
  case (Cons c v)
  then have c: "encodable_char c" and v: "encodable v" by (simp_all add: encodable_Cons)
  have "percent_encoded (c # v) = percent_encoded [c] @ percent_encoded v"
    by (rule percent_encoded_Cons)
  then show ?case using percent_encoded_char [OF c] Cons.IH [OF v] by simp
qed

lemma encodable_lit: "encodable (lit s)"
proof -
  have "\<And>b :: char. (of_char b :: nat) < 256" by simp
  moreover have "\<And>n :: nat. n < 256 \<Longrightarrow> encodable_char n"
    by (simp add: encodable_char_def is_surrogate_def)
  ultimately show ?thesis by (simp add: encodable_def lit_def)
qed

text \<open>
  Claim C5, as stated, fails for a string that holds a lone surrogate, such as the
  value that \<open>os.environ\<close> gives for a variable with the byte FF in it: the encoding to
  UTF-8 raises \<open>UnicodeEncodeError\<close>.
\<close>

theorem encode_param_lone_surrogate:
  "encode_param (lit ''key'' @ [56575]) = Inl UnicodeEncodeError"
  by (simp add: encode_param_cases encodable_append encodable_Cons encodable_char_def
      is_surrogate_def)

text \<open>
  Claim C5, amended. For every string without a surrogate, \<open>_encode_param\<close> returns a
  text of which percent-decoding gives the string back. The text is made character by
  character: a letter, a digit, one of \<open>-._~\<close> and the separators \<open>|\<close>, comma and
  colon are copied, and for any other character every byte of its UTF-8 encoding is
  written \<open>%\<close> and two hexadecimal digits; so the separators pass through unescaped.
\<close>

theorem encode_param_round_trip:
  assumes "encodable v"
  shows "encode_param v = Inr (concat (map percent_char v))
       \<and> unquote (concat (map percent_char v)) = Some v
       \<and> encode_param (lit ''|,:'') = Inr (lit ''|,:'')"
proof -
  have a: "encode_param v = Inr (concat (map percent_char v))"
    using assms by (simp add: encode_param_cases percent_encoded_chars)
  have b: "unquote (concat (map percent_char v)) = Some v"
    using assms unquote_percent_encoded [of v] by (simp add: percent_encoded_chars)
  have "concat (map percent_char (lit ''|,:'')) = lit ''|,:''"
    by (simp add: percent_char_def unreserved_def extra_safe_def lit_def)
  then have c: "encode_param (lit ''|,:'') = Inr (lit ''|,:'')"
    using encodable_lit [of "''|,:''"] by (simp add: encode_param_cases percent_encoded_chars)
  from a b c show ?thesis by (intro conjI)
qed

theorem encode_param_round_trip_witness:
  "encode_param (lit ''a b/c|'' @ [233]) = Inr (lit ''a%20b%2Fc|%C3%A9'')
   \<and> unquote (lit ''a%20b%2Fc|%C3%A9'') = Some (lit ''a b/c|'' @ [233])"
proof -
  have h: "encodable (lit ''a b/c|'' @ [233])"
    by (simp add: encodable_append encodable_lit encodable_Cons encodable_Nil
        encodable_char_def is_surrogate_def)
  have v: "concat (map percent_char (lit ''a b/c|'' @ [233])) = lit ''a%20b%2Fc|%C3%A9''"
    by (simp add: percent_char_def unreserved_def extra_safe_def lit_def utf8_bytes_def
        percent_byte_def hex_digit_def)
  from encode_param_round_trip [OF h] show ?thesis
    by (simp only: v) 
qed

section \<open>Properties of the share link and of the itinerary\<close>

lemma py_index_first: "xs \<noteq> [] \<Longrightarrow> py_index xs 0 = Inr (hd xs)"
  by (cases xs) (simp_all add: py_index_def)

lemma py_index_last: "xs \<noteq> [] \<Longrightarrow> py_index xs (- 1) = Inr (last xs)"
proof -
  assume ne: "xs \<noteq> []"
  then have "nat (int (length xs) + (- 1)) = length xs - 1"
    by (cases xs) simp_all
  with ne show ?thesis
    by (cases xs) (simp_all add: py_index_def last_conv_nth)
qed

lemma map_result_valid:
  "\<forall>i\<in>set order. 0 \<le> i \<and> i < int (length xs) \<Longrightarrow>
   map_result (py_index_json xs) (map JInt order) = Inr (map (\<lambda>i. xs ! nat i) order)"
  by (induction order) (simp_all add: py_index_json_def py_index_def)

lemma py_iter_JArr: "py_iter (JArr xs) = Inr xs"
  by (simp add: py_iter_def)

lemma middle_length: "length (middle xs) = length xs - 2"
  by (simp add: middle_def)

lemma middle_sandwich: "middle (a # xs @ [b]) = xs"
  by (simp add: middle_def)

lemma sandwich: "2 \<le> length xs \<Longrightarrow> xs = hd xs # middle xs @ [last xs]"
proof -
  assume "2 \<le> length xs"
  then obtain a ys where xs: "xs = a # ys" and ys: "ys \<noteq> []"
    by (cases xs) (auto simp add: Suc_le_eq)
  from ys have "ys = butlast ys @ [last ys]" by simp
  moreover have "middle (a # ys) = butlast ys"
    using ys by (cases ys) (simp_all add: middle_def butlast_conv_take)
  ultimately show ?thesis using xs ys by simp
qed

lemma encoded_pairs:
  "map_result (\<lambda>kv. case encode_param (snd kv) of
                      Inl e \<Rightarrow> Inl e
                    | Inr v \<Rightarrow> Inr (fst kv @ lit ''='' @ v)) params
     = (if \<forall>kv\<in>set params. encodable (snd kv)
        then Inr (map (\<lambda>kv. fst kv @ lit ''='' @ percent_encoded (snd kv)) params)
        else Inl UnicodeEncodeError)"
  by (induction params) (simp_all add: encode_param_cases)

lemma query_string_cases:
  "query_string params
     = (if \<forall>kv\<in>set params. encodable (snd kv)
        then Inr (join (lit ''&'') (map (\<lambda>kv. fst kv @ lit ''='' @ percent_encoded (snd kv)) params))
        else Inl UnicodeEncodeError)"
  unfolding query_string_def encoded_pairs by simp

lemma encodable_join:
  "encodable sep \<Longrightarrow> encodable (join sep xs) \<longleftrightarrow> (\<forall>x\<in>set xs. encodable x)"
  by (induction sep xs rule: join.induct) (auto simp add: encodable_Nil encodable_append)

lemma percent_encoded_lit_1: "percent_encoded (lit ''1'') = lit ''1''"
  using encodable_lit [of "''1''"]
  by (simp add: percent_encoded_chars percent_char_def unreserved_def extra_safe_def lit_def)

lemma percent_encoded_lit_driving: "percent_encoded (lit ''driving'') = lit ''driving''"
  using encodable_lit [of "''driving''"]
  by (simp add: percent_encoded_chars percent_char_def unreserved_def extra_safe_def lit_def)

lemma share_link_text:
  assumes "places \<noteq> []"
    and "(if optimized = JNull then Inr (middle places)
          else (case py_iter optimized of
                  Inl e \<Rightarrow> Inl e
                | Inr order \<Rightarrow> map_result (py_index_json (middle places)) order)) = Inr wl"
  shows "build_gmaps_share_link places optimized
           = (if encodable (hd places) \<and> encodable (last places) \<and> (\<forall>p\<in>set wl. encodable p)
              then Inr (spec_share_link (hd places) (last places) wl)
              else Inl UnicodeEncodeError)"
proof (cases wl)
  case Nil
  with assms show ?thesis
    unfolding build_gmaps_share_link_def
    by (simp add: py_index_first py_index_last spec_share_link_def query_string_cases
        encodable_lit percent_encoded_lit_1 percent_encoded_lit_driving)
      (simp add: lit_def)
next
  case (Cons x xs)
  have j: "encodable (join (lit ''|'') wl) \<longleftrightarrow> (\<forall>p\<in>set wl. encodable p)"
    by (rule encodable_join) (rule encodable_lit)
  from Cons have ne: "wl \<noteq> []" by simp
  from assms ne show ?thesis
    unfolding build_gmaps_share_link_def
    by (simp add: py_index_first py_index_last spec_share_link_def query_string_cases
        encodable_lit percent_encoded_lit_1 percent_encoded_lit_driving j)
      (simp add: lit_def)
qed

text \<open>
  Claim C3, as stated, fails in two ways. For two places there is no middle place, and
  the link has no waypoints parameter at all (the same holds for an empty order). And a
  place that holds a lone surrogate cannot be encoded: the call raises
  \<open>UnicodeEncodeError\<close> and returns no URL.
\<close>

theorem build_gmaps_share_link_no_waypoints:
  "build_gmaps_share_link [lit ''A'', lit ''F''] JNull
     = Inr (lit ''https://www.google.com/maps/dir/?api=1&origin=A&destination=F&travelmode=driving'')
   \<and> build_gmaps_share_link [lit ''A'', [56575], lit ''F''] JNull = Inl UnicodeEncodeError"
proof -
  have a: "build_gmaps_share_link [lit ''A'', lit ''F''] JNull
             = Inr (spec_share_link (lit ''A'') (lit ''F'') [])"
    using share_link_text [of "[lit ''A'', lit ''F'']" JNull "[]"]
    by (simp add: middle_def encodable_lit)
  have "percent_encoded (lit ''A'') = lit ''A''" "percent_encoded (lit ''F'') = lit ''F''"
    using encodable_lit [of "''A''"] encodable_lit [of "''F''"]
    by (simp_all add: percent_encoded_chars percent_char_def unreserved_def extra_safe_def lit_def)
  then have "spec_share_link (lit ''A'') (lit ''F'') []
               = lit ''https://www.google.com/maps/dir/?api=1&origin=A&destination=F&travelmode=driving''"
    by (simp add: spec_share_link_def) (simp add: lit_def)
  with a have one: "build_gmaps_share_link [lit ''A'', lit ''F''] JNull
     = Inr (lit ''https://www.google.com/maps/dir/?api=1&origin=A&destination=F&travelmode=driving'')"
    by simp
  have "\<not> encodable [56575]"
    by (simp add: encodable_def encodable_char_def is_surrogate_def)
  then have two: "build_gmaps_share_link [lit ''A'', [56575], lit ''F''] JNull = Inl UnicodeEncodeError"
    using share_link_text [of "[lit ''A'', [56575], lit ''F'']" JNull "[[56575]]"]
    by (simp add: middle_def)
  from one two show ?thesis by (rule conjI)
qed

text \<open>
  Claim C3, amended. For a list of at least two places none of which holds a surrogate,
  and an order whose indices all point into the middle places, the link has the first
  place as origin, the last place as destination, driving as travel mode and, when there
  is at least one of them, the middle places, picked in the given order or left in their
  original order when no order is given, joined by \<open>|\<close> as waypoints; when there is
  none, the link has no waypoints parameter.
\<close>

theorem build_gmaps_share_link_url:
  assumes "2 \<le> length places"
    and "\<forall>p\<in>set places. encodable p"
    and "\<forall>i\<in>set order. 0 \<le> i \<and> i < int (length (middle places))"
  shows "build_gmaps_share_link places (JArr (map JInt order))
           = Inr (spec_share_link (hd places) (last places)
                    (map (\<lambda>i. middle places ! nat i) order))
       \<and> build_gmaps_share_link places JNull
           = Inr (spec_share_link (hd places) (last places) (middle places))"
proof -
  from assms(1) have ne: "places \<noteq> []" by auto
  from ne assms(2) have ends: "encodable (hd places)" "encodable (last places)" by simp_all
  have "set (middle places) \<subseteq> set places"
    unfolding middle_def by (meson set_drop_subset set_take_subset subset_trans)
  with assms(2) have mid: "\<forall>p\<in>set (middle places). encodable p" by blast
  from assms(3) have "set (map (\<lambda>i. middle places ! nat i) order) \<subseteq> set (middle places)"
    by (auto simp add: nat_less_iff)
  with mid have picked: "\<forall>p\<in>set (map (\<lambda>i. middle places ! nat i) order). encodable p" by blast
  have "build_gmaps_share_link places (JArr (map JInt order))
           = Inr (spec_share_link (hd places) (last places)
                    (map (\<lambda>i. middle places ! nat i) order))"
    using share_link_text [OF ne, of "JArr (map JInt order)" "map (\<lambda>i. middle places ! nat i) order"]
      assms(3) ends picked
    by (simp add: py_iter_JArr map_result_valid)
  moreover have "build_gmaps_share_link places JNull
           = Inr (spec_share_link (hd places) (last places) (middle places))"
    using share_link_text [OF ne, of JNull "middle places"] ends mid by simp
  ultimately show ?thesis by (rule conjI)
qed

lemma percent_encoded_step:
  "encodable_char c \<Longrightarrow> percent_encoded (c # v) = percent_char c @ percent_encoded v"
  using percent_encoded_Cons [of c v] percent_encoded_char [of c] by simp

lemmas percent_encoded_eval =
  percent_encoded_step percent_encoded_Nil encodable_char_def is_surrogate_def percent_char_def
  unreserved_def extra_safe_def utf8_bytes_def percent_byte_def hex_digit_def lit_def

theorem build_gmaps_share_link_url_witness:
  "build_gmaps_share_link [lit ''A'', lit ''B c'', lit ''D|e'', lit ''F''] (JArr (map JInt [1, 0]))
     = Inr (lit ''https://www.google.com/maps/dir/?api=1&origin=A&destination=F&travelmode=driving&waypoints=D|e|B%20c'')"
proof -
  let ?places = "[lit ''A'', lit ''B c'', lit ''D|e'', lit ''F'']"
  have h1: "2 \<le> length ?places" by simp
  have h2: "\<forall>p\<in>set ?places. encodable p" by (simp add: encodable_lit)
  have h3: "\<forall>i\<in>set [1, 0 :: int]. 0 \<le> i \<and> i < int (length (middle ?places))"
    by (simp add: middle_def)
  have m: "map (\<lambda>i. middle ?places ! nat i) [1, 0] = [lit ''D|e'', lit ''B c'']"
    by (simp add: middle_def)
  have v: "spec_share_link (hd ?places) (last ?places) (map (\<lambda>i. middle ?places ! nat i) [1, 0])
           = lit ''https://www.google.com/maps/dir/?api=1&origin=A&destination=F&travelmode=driving&waypoints=D|e|B%20c''"
    unfolding m by (simp add: spec_share_link_def percent_encoded_eval)
  have "build_gmaps_share_link ?places (JArr (map JInt [1, 0]))
          = Inr (spec_share_link (hd ?places) (last ?places)
                   (map (\<lambda>i. middle ?places ! nat i) [1, 0]))"
    using build_gmaps_share_link_url [OF h1 h2 h3] by (rule conjunct1)
  then show ?thesis by (simp only: v)
qed

lemma mset_pick_all:
  assumes "mset order = mset (map int [0..<length xs])"
  shows "mset (map (\<lambda>i. xs ! nat i) order) = mset xs"
proof -
  have "mset (map (\<lambda>i. xs ! nat i) order) = image_mset (\<lambda>i. xs ! nat i) (mset order)"
    by simp
  also have "\<dots> = image_mset (\<lambda>i. xs ! nat i) (mset (map int [0..<length xs]))"
    by (simp only: assms)
  also have "\<dots> = mset (map (\<lambda>i. xs ! nat i) (map int [0..<length xs]))"
    by (simp only: mset_map)
  also have "\<dots> = mset (map (\<lambda>k. xs ! k) [0..<length xs])"
    by (simp only: map_map comp_def nat_int)
  also have "\<dots> = mset xs"
    by (simp only: map_nth)
  finally show ?thesis .
qed

lemma permutation_valid:
  assumes "mset order = mset (map int [0..<n])"
  shows "\<forall>i\<in>set order. 0 \<le> i \<and> i < int n"
proof -
  have "set order = set (map int [0..<n])"
    using assms by (rule mset_eq_setD)
  then show ?thesis by auto
qed

lemma ordered_places_valid:
  assumes "places \<noteq> []"
    and "\<forall>i\<in>set order. 0 \<le> i \<and> i < int (length (middle places))"
  shows "ordered_places places (JArr (map JInt order))
           = Inr (hd places # map (\<lambda>i. middle places ! nat i) order @ [last places])"
  using assms
  by (simp add: ordered_places_def py_iter_JArr map_result_valid py_index_first py_index_last)

text \<open>
  Claim C8. For every waypoint order that is a permutation of the indices of the middle
  places, the itinerary that \<open>main\<close> builds starts with the first place and ends with
  the last place, its middle stops are the middle places in another order, and the
  share link has the first place as origin, the last place as destination and those
  middle stops as waypoints (a link exists when no place holds a surrogate, as is the
  case for \<open>PLACES\<close>; the call raises otherwise).
\<close>

theorem endpoints_fixed:
  assumes "2 \<le> length places"
    and "mset order = mset (map int [0..<length (middle places)])"
  shows "\<exists>itinerary.
           ordered_places places (JArr (map JInt order)) = Inr itinerary
         \<and> hd itinerary = hd places
         \<and> last itinerary = last places
         \<and> mset (middle itinerary) = mset (middle places)
         \<and> build_gmaps_share_link places (JArr (map JInt order))
             = (if \<forall>p\<in>set places. encodable p
                then Inr (spec_share_link (hd places) (last places) (middle itinerary))
                else Inl UnicodeEncodeError)"
proof -
  from assms(1) have ne: "places \<noteq> []" by auto
  have valid: "\<forall>i\<in>set order. 0 \<le> i \<and> i < int (length (middle places))"
    using assms(2) by (rule permutation_valid)
  let ?stops = "map (\<lambda>i. middle places ! nat i) order"
  let ?it = "hd places # ?stops @ [last places]"
  have a: "ordered_places places (JArr (map JInt order)) = Inr ?it"
    using ne valid by (rule ordered_places_valid)
  have b: "middle ?it = ?stops" by (rule middle_sandwich)
  have c: "mset ?stops = mset (middle places)"
    using assms(2) by (rule mset_pick_all)
  then have "set ?stops = set (middle places)" by (rule mset_eq_setD)
  moreover have "set places = insert (hd places) (set (middle places) \<union> {last places})"
    using sandwich [OF assms(1)] by (metis list.simps(15) set_append empty_set)
  ultimately have all: "(encodable (hd places) \<and> encodable (last places) \<and> (\<forall>p\<in>set ?stops. encodable p))
                \<longleftrightarrow> (\<forall>p\<in>set places. encodable p)"
    by auto
  have "build_gmaps_share_link places (JArr (map JInt order))
          = (if encodable (hd places) \<and> encodable (last places) \<and> (\<forall>p\<in>set ?stops. encodable p)
             then Inr (spec_share_link (hd places) (last places) ?stops)
             else Inl UnicodeEncodeError)"
    using valid by (intro share_link_text [OF ne]) (simp add: py_iter_JArr map_result_valid)
  then have d: "build_gmaps_share_link places (JArr (map JInt order))
          = (if \<forall>p\<in>set places. encodable p
             then Inr (spec_share_link (hd places) (last places) ?stops)
             else Inl UnicodeEncodeError)"
    by (simp only: all)
  have "ordered_places places (JArr (map JInt order)) = Inr ?it
         \<and> hd ?it = hd places
         \<and> last ?it = last places
         \<and> mset (middle ?it) = mset (middle places)
         \<and> build_gmaps_share_link places (JArr (map JInt order))
             = (if \<forall>p\<in>set places. encodable p
                then Inr (spec_share_link (hd places) (last places) (middle ?it))
                else Inl UnicodeEncodeError)"
    using a c d unfolding b by simp
  then show ?thesis by (rule exI)
qed

lemma PLACES_encodable: "\<forall>p\<in>set PLACES. encodable p"
  by (simp add: PLACES_def encodable_append encodable_lit encodable_Cons encodable_Nil
      encodable_char_def is_surrogate_def)

theorem endpoints_fixed_witness:
  "\<exists>itinerary.
     ordered_places PLACES (JArr (map JInt [2, 0, 1])) = Inr itinerary
   \<and> hd itinerary = hd PLACES
   \<and> last itinerary = last PLACES
   \<and> mset (middle itinerary) = mset (middle PLACES)
   \<and> build_gmaps_share_link PLACES (JArr (map JInt [2, 0, 1]))
       = Inr (spec_share_link (hd PLACES) (last PLACES) (middle itinerary))"
proof -
  have h1: "2 \<le> length PLACES"
    by (simp add: PLACES_def)
  have len: "length (middle PLACES) = 3"
    by (simp add: middle_length PLACES_def)
  have idx: "map int [0..<3] = [0, 1, 2]"
    by (simp add: upt_rec)
  have "mset [2, 0, 1 :: int] = mset [0, 1, 2]"
    by simp
  then have h2: "mset [2, 0, 1 :: int] = mset (map int [0..<length (middle PLACES)])"
    by (simp only: len idx)
  show ?thesis
    using endpoints_fixed [OF h1 h2] PLACES_encodable by simp
qed

section \<open>Properties of the distance format\<close>


lemma log2_floor_bounds:
  "0 < a \<Longrightarrow> 2 ^ log2_floor a \<le> a \<and> a < 2 ^ Suc (log2_floor a)"
proof (induction a rule: log2_floor.induct)
  case (1 n)
  show ?case
  proof (cases "n < 2")
    case True
    with "1.prems" have "n = 1" by simp
    then show ?thesis by (simp add: log2_floor.simps)
  next
    case False
    then have "0 < n div 2" by simp
    with "1.IH" False have ih: "2 ^ log2_floor (n div 2) \<le> n div 2"
      "n div 2 < 2 ^ Suc (log2_floor (n div 2))" by simp_all
    from False have eq: "log2_floor n = Suc (log2_floor (n div 2))"
      by (subst log2_floor.simps) simp
    from ih show ?thesis unfolding eq by (simp; linarith)
  qed
qed

lemma pow2_powi: "pow2 e = 2 powi e"
  by (simp add: pow2_def power_int_def inverse_eq_divide power_one_over)

lemma pow2_pos: "0 < pow2 e"
  by (simp add: pow2_powi)

lemma pow2_add: "pow2 (a + b) = pow2 a * pow2 b"
  by (simp add: pow2_powi power_int_add)

lemma pow2_mono: "a \<le> b \<Longrightarrow> pow2 a \<le> pow2 b"
  by (simp add: pow2_powi power_int_increasing)

lemma pow2_nat: "pow2 (int k) = 2 ^ k"
  by (simp add: pow2_def)

lemma pow2_diff_nat: "pow2 (int i - int j) = 2 ^ i / 2 ^ j"
  by (simp add: pow2_powi power_int_diff)

lemma pow2_Suc: "pow2 (e + 1) = 2 * pow2 e"
proof -
  have "pow2 1 = 2" by (simp add: pow2_def)
  then show ?thesis by (simp add: pow2_add)
qed

lemma exponent_candidates:
  assumes "0 < x"
  shows "\<exists>e0. exponent x = (if pow2 e0 \<le> x then e0 else e0 - 1)
            \<and> pow2 (e0 - 1) \<le> x \<and> x < pow2 (e0 + 1)"
proof -
  obtain a b where q: "quotient_of x = (a, b)" by (cases "quotient_of x")
  then have b: "0 < b" by (rule quotient_of_denom_pos)
  from q have x: "x = of_int a / of_int b" by (rule quotient_of_div)
  with assms b have a: "0 < a"
    by (simp add: zero_less_divide_iff)
  let ?la = "log2_floor (nat a)" and ?lb = "log2_floor (nat b)"
  let ?na = "of_nat (nat a) :: rat" and ?nb = "of_nat (nat b) :: rat"
  from a b have xn: "x = ?na / ?nb" unfolding x by simp
  from a have "2 ^ ?la \<le> nat a \<and> nat a < 2 ^ Suc ?la"
    by (intro log2_floor_bounds) simp
  then have "(of_nat (2 ^ ?la) :: rat) \<le> ?na" and "?na < of_nat (2 ^ Suc ?la)"
    by (simp_all only: of_nat_le_iff of_nat_less_iff)
  then have la: "(2 :: rat) ^ ?la \<le> ?na" "?na < 2 ^ Suc ?la"
    by simp_all
  from b have "2 ^ ?lb \<le> nat b \<and> nat b < 2 ^ Suc ?lb"
    by (intro log2_floor_bounds) simp
  then have "(of_nat (2 ^ ?lb) :: rat) \<le> ?nb" and "?nb < of_nat (2 ^ Suc ?lb)"
    by (simp_all only: of_nat_le_iff of_nat_less_iff)
  then have lb: "(2 :: rat) ^ ?lb \<le> ?nb" "?nb < 2 ^ Suc ?lb"
    by simp_all
  from b have nbpos: "0 < ?nb" by simp
  let ?e0 = "int ?la - int ?lb"
  have lo: "pow2 (?e0 - 1) \<le> x"
  proof -
    have "pow2 (?e0 - 1) = 2 ^ ?la / 2 ^ Suc ?lb"
      using pow2_diff_nat [of ?la "Suc ?lb"] by (simp add: algebra_simps)
    also have "\<dots> \<le> ?na / ?nb"
      using la(1) lb(2) nbpos by (intro frac_le) simp_all
    finally show ?thesis unfolding xn .
  qed
  have hi: "x < pow2 (?e0 + 1)"
  proof -
    have "?na / ?nb < 2 ^ Suc ?la / 2 ^ ?lb"
      using la(2) lb(1) by (intro frac_less) simp_all
    also have "\<dots> = pow2 (?e0 + 1)"
      using pow2_diff_nat [of "Suc ?la" ?lb] by (simp add: algebra_simps)
    finally show ?thesis unfolding xn .
  qed
  have "exponent x = (if pow2 ?e0 \<le> x then ?e0 else ?e0 - 1)"
    by (simp add: exponent_def q Let_def)
  with lo hi show ?thesis by blast
qed

lemma exponent_bounds:
  assumes "0 < x"
  shows "pow2 (exponent x) \<le> x \<and> x < pow2 (exponent x + 1)"
proof -
  from exponent_candidates [OF assms] obtain e0 where
    e: "exponent x = (if pow2 e0 \<le> x then e0 else e0 - 1)"
    and lo: "pow2 (e0 - 1) \<le> x" and hi: "x < pow2 (e0 + 1)" by blast
  show ?thesis
  proof (cases "pow2 e0 \<le> x")
    case True
    with e hi show ?thesis by simp
  next
    case False
    with e lo show ?thesis by simp
  qed
qed

lemma exponent_unique:
  assumes "pow2 e \<le> x" and "x < pow2 (e + 1)"
  shows "exponent x = e"
proof -
  from assms(1) pow2_pos [of e] have pos: "0 < x" by simp
  from exponent_bounds [OF pos] have b: "pow2 (exponent x) \<le> x" "x < pow2 (exponent x + 1)"
    by simp_all
  have "\<not> exponent x + 1 \<le> e"
  proof
    assume "exponent x + 1 \<le> e"
    then have "pow2 (exponent x + 1) \<le> pow2 e" by (rule pow2_mono)
    with b(2) assms(1) show False by simp
  qed
  moreover have "\<not> e + 1 \<le> exponent x"
  proof
    assume "e + 1 \<le> exponent x"
    then have "pow2 (e + 1) \<le> pow2 (exponent x)" by (rule pow2_mono)
    with b(1) assms(2) show False by simp
  qed
  ultimately show ?thesis by simp
qed

lemma exponent_less:
  assumes "0 < x" and "x < pow2 k"
  shows "exponent x < k"
proof (rule ccontr)
  assume "\<not> exponent x < k"
  then have "pow2 k \<le> pow2 (exponent x)" by (intro pow2_mono) simp
  with exponent_bounds [OF assms(1)] assms(2) show False by simp
qed

lemma round_half_even_error: "\<bar>of_int (round_half_even x) - x\<bar> \<le> 1 / 2"
proof -
  have "of_int \<lfloor>x\<rfloor> \<le> x" and "x < of_int \<lfloor>x\<rfloor> + 1"
    by linarith+
  then show ?thesis
    by (simp add: round_half_even_def Let_def)
qed

lemma round_half_even_of_int: "round_half_even (of_int k) = k"
  by (simp add: round_half_even_def)

lemma round_half_even_nonneg: "0 \<le> x \<Longrightarrow> 0 \<le> round_half_even x"
  by (simp add: round_half_even_def Let_def)

lemma round_double_pos:
  assumes "0 < x"
  shows "round_double x
           = of_int (round_half_even (x / pow2 (exponent x - 52))) * pow2 (exponent x - 52)"
  using assms by (simp add: round_double_def Let_def)

lemma round_double_error:
  assumes "0 < x"
  shows "\<bar>round_double x - x\<bar> \<le> pow2 (exponent x - 52) / 2"
proof -
  let ?u = "pow2 (exponent x - 52)"
  let ?m = "round_half_even (x / ?u)"
  have u: "0 < ?u" by (rule pow2_pos)
  have "round_double x - x = (of_int ?m - x / ?u) * ?u"
    using u by (simp add: round_double_pos [OF assms] field_simps)
  then have "\<bar>round_double x - x\<bar> = \<bar>of_int ?m - x / ?u\<bar> * ?u"
    using u by (simp add: abs_mult)
  also have "\<dots> \<le> (1 / 2) * ?u"
    using u round_half_even_error [of "x / ?u"] by (intro mult_right_mono) simp_all
  finally show ?thesis by simp
qed

lemma round_double_nonneg:
  assumes "0 \<le> x"
  shows "0 \<le> round_double x"
proof (cases "x = 0")
  case True
  then show ?thesis by (simp add: round_double_def)
next
  case False
  with assms have pos: "0 < x" by simp
  have "0 \<le> x / pow2 (exponent x - 52)"
    using pos pow2_pos [of "exponent x - 52"] by simp
  then have "0 \<le> round_half_even (x / pow2 (exponent x - 52))"
    by (rule round_half_even_nonneg)
  then show ?thesis
    using pow2_pos [of "exponent x - 52"] by (simp add: round_double_pos [OF pos])
qed

lemma round_double_of_int:
  assumes "0 \<le> n" and "n < 2 ^ 53"
  shows "round_double (of_int n) = of_int n"
proof (cases "n = 0")
  case True
  then show ?thesis by (simp add: round_double_def)
next
  case False
  with assms have pos: "0 < (of_int n :: rat)" by simp
  from assms(2) have "(of_int n :: rat) < of_int (2 ^ 53)"
    by (simp only: of_int_less_iff)
  then have "(of_int n :: rat) < pow2 53"
    by (simp add: pow2_def)
  with pos have "exponent (of_int n) < 53" by (rule exponent_less)
  define k where "k = nat (52 - exponent (of_int n :: rat))"
  with \<open>exponent (of_int n) < 53\<close> have k: "exponent (of_int n :: rat) - 52 = - int k"
    by simp
  have u: "pow2 (- int k) = 1 / 2 ^ k"
    by (simp add: pow2_powi power_int_minus inverse_eq_divide)
  have "of_int n / pow2 (- int k) = (of_int (n * 2 ^ k) :: rat)"
    by (simp add: u)
  then have "round_half_even (of_int n / pow2 (- int k)) = n * 2 ^ k"
    by (simp only: round_half_even_of_int)
  then show ?thesis
    by (simp add: round_double_pos [OF pos] k u)
qed

lemma float_of_int_exact:
  assumes "0 \<le> n" and "n < 2 ^ 53"
  shows "float_of_int n = Inr (of_int n)"
proof -
  have "(of_int n :: rat) < of_int (2 ^ 53)"
    using assms(2) by (simp only: of_int_less_iff)
  then have "(of_int n :: rat) < 2 ^ 53" by simp
  also have "(2 :: rat) ^ 53 \<le> 2 ^ 1024" by (intro power_increasing) simp_all
  finally have "\<not> (2 :: rat) ^ 1024 \<le> \<bar>of_int n\<bar>"
    using assms(1) by simp
  then show ?thesis
    by (simp only: float_of_int_def Let_def round_double_of_int [OF assms] if_False)
qed

lemma km_error:
  assumes "0 \<le> n" and "n < 2 ^ 53"
  shows "\<bar>round_double (of_int n / 1000) - of_int n / 1000\<bar> < 1 / 1000"
proof (cases "n = 0")
  case True
  then show ?thesis by (simp add: round_double_def)
next
  case False
  let ?x = "of_int n / 1000 :: rat"
  from False assms(1) have pos: "0 < ?x" by simp
  have "(of_int n :: rat) < of_int (2 ^ 53)"
    using assms(2) by (simp only: of_int_less_iff)
  then have "?x < 2 ^ 53 / 1000" by simp
  also have "\<dots> < pow2 44" by (simp add: pow2_def)
  finally have "exponent ?x < 44" by (intro exponent_less [OF pos])
  then have "pow2 (exponent ?x - 52) \<le> pow2 (- 9)" by (intro pow2_mono) simp
  also have "pow2 (- 9) = 1 / 512" by (simp add: pow2_def)
  finally have "pow2 (exponent ?x - 52) / 2 \<le> 1 / 1024" by simp
  with round_double_error [OF pos] show ?thesis by simp
qed

lemma format_distance_meters_km:
  assumes "0 \<le> n" and "n < 2 ^ 53"
  shows "format_distance_meters m n =
           (let km = round_double (of_int n / 1000)
            in if 10 \<le> km
               then (case str_of_int m (round_half_even km) of
                       Inl e \<Rightarrow> Inl e
                     | Inr r \<Rightarrow> Inr (r @ lit '' km''))
               else Inr (format_1f km @ lit '' km''))"
  by (simp add: format_distance_meters_def float_of_int_exact [OF assms])

lemma format_distance_meters_large:
  assumes "10000 \<le> n" and "n < 2 ^ 53"
  shows "\<exists>r. format_distance_meters m n = Inr (str_int r @ lit '' km'') \<and> \<bar>1000 * r - n\<bar> \<le> 500"
proof -
  let ?x = "of_int n / 1000 :: rat"
  let ?km = "round_double ?x"
  let ?r = "round_half_even ?km"
  from assms(1) have n0: "0 \<le> n" by simp
  have err: "\<bar>?km - ?x\<bar> < 1 / 1000"
    using n0 assms(2) by (rule km_error)
  have ge: "10 \<le> ?km"
  proof (cases "n = 10000")
    case True
    have "round_double (of_int 10) = (of_int 10 :: rat)"
      by (rule round_double_of_int) simp_all
    with True show ?thesis by simp
  next
    case False
    with assms(1) have "10001 \<le> n" by simp
    then have "(of_int 10001 :: rat) \<le> of_int n" by (simp only: of_int_le_iff)
    then have "10001 / 1000 \<le> ?x" by simp
    with err show ?thesis by linarith
  qed
  have "\<bar>of_int ?r - ?km\<bar> \<le> 1 / 2" by (rule round_half_even_error)
  with err have "\<bar>of_int ?r - ?x\<bar> < 1 / 2 + 1 / 1000" by linarith
  then have "\<bar>1000 * of_int ?r - (of_int n :: rat)\<bar> < 501"
    by linarith
  then have "(of_int \<bar>1000 * ?r - n\<bar> :: rat) < of_int 501" by simp
  then have "\<bar>1000 * ?r - n\<bar> < 501" by (simp only: of_int_less_iff)
  then have close: "\<bar>1000 * ?r - n\<bar> \<le> 500" by simp
  from close assms have "\<bar>?r\<bar> < 10 ^ Suc 15" by simp
  then have "int_digits ?r \<le> Suc 15" by (rule int_digits_le)
  then have "str_of_int m ?r = Inr (str_int ?r)" by (intro str_of_int_short) simp
  then have "format_distance_meters m n = Inr (str_int ?r @ lit '' km'')"
    using ge by (simp add: format_distance_meters_km [OF n0 assms(2)])
  with close show ?thesis by blast
qed

lemma format_distance_meters_small:
  assumes "0 \<le> n" and "n < 10000"
  shows "\<exists>q. format_distance_meters m n
               = Inr (str_int (q div 10) @ lit ''.'' @ str_int (q mod 10) @ lit '' km'')
             \<and> 0 \<le> q \<and> \<bar>100 * q - n\<bar> \<le> 50"
proof -
  let ?x = "of_int n / 1000 :: rat"
  let ?km = "round_double ?x"
  let ?q = "round_half_even (?km * 10)"
  from assms(2) have big: "n < 2 ^ 53" by simp
  have err: "\<bar>?km - ?x\<bar> < 1 / 1000"
    using assms(1) big by (rule km_error)
  from assms(2) have "n \<le> 9999" by simp
  then have "(of_int n :: rat) \<le> of_int 9999" by (simp only: of_int_le_iff)
  then have "?x \<le> 9999 / 1000" by simp
  with err have lt: "\<not> 10 \<le> ?km" by linarith
  have "0 \<le> ?x" using assms(1) by simp
  then have km0: "0 \<le> ?km" by (rule round_double_nonneg)
  then have q0: "0 \<le> ?q" by (intro round_half_even_nonneg) simp
  have "\<bar>of_int ?q - ?km * 10\<bar> \<le> 1 / 2" by (rule round_half_even_error)
  with err have "\<bar>of_int ?q - ?x * 10\<bar> < 1 / 2 + 1 / 100"
    by linarith
  then have "\<bar>100 * of_int ?q - (of_int n :: rat)\<bar> < 51"
    by linarith
  then have "(of_int \<bar>100 * ?q - n\<bar> :: rat) < of_int 51" by simp
  then have "\<bar>100 * ?q - n\<bar> < 51" by (simp only: of_int_less_iff)
  then have close: "\<bar>100 * ?q - n\<bar> \<le> 50" by simp
  have f1: "format_1f ?km = str_int (?q div 10) @ lit ''.'' @ str_int (?q mod 10)"
    using km0 by (simp add: format_1f_def Let_def)
  have "format_distance_meters m n = Inr (format_1f ?km @ lit '' km'')"
    using lt by (simp add: format_distance_meters_km [OF assms(1) big] Let_def)
  then have "format_distance_meters m n
               = Inr (str_int (?q div 10) @ lit ''.'' @ str_int (?q mod 10) @ lit '' km'')"
    by (simp only: f1 append_assoc)
  with q0 close show ?thesis by blast
qed

lemma round_double_power2:
  assumes "52 \<le> k"
  shows "round_double (2 ^ k) = 2 ^ k"
proof -
  have e: "exponent (2 ^ k) = int k"
    by (rule exponent_unique) (simp_all add: pow2_nat pow2_Suc)
  from assms have "int k - 52 = int (k - 52)" by simp
  then have u: "pow2 (int k - 52) = 2 ^ (k - 52)" by (simp only: pow2_nat)
  from assms have k: "k = 52 + (k - 52)" by simp
  have "(2 ^ k :: rat) = 2 ^ 52 * 2 ^ (k - 52)"
    by (subst k) (simp only: power_add)
  then have p: "(2 ^ k :: rat) = of_int (2 ^ 52) * 2 ^ (k - 52)" by simp
  then have q: "(2 ^ k :: rat) / 2 ^ (k - 52) = of_int (2 ^ 52)" by simp
  have "round_double (2 ^ k) = of_int (round_half_even (of_int (2 ^ 52))) * 2 ^ (k - 52)"
    unfolding round_double_def Let_def by (simp add: e u q del: of_int_power of_int_numeral)
  also have "\<dots> = 2 ^ k" by (simp only: round_half_even_of_int p)
  finally show ?thesis .
qed

lemma float_of_int_overflow: "float_of_int (2 ^ 1024) = Inl OverflowError"
proof -
  have "round_double (2 ^ 1024) = 2 ^ 1024" by (rule round_double_power2) simp
  then show ?thesis by (simp add: float_of_int_def)
qed

lemma str_int_numbers:
  "str_int 51 = lit ''51''" "str_int 5 = lit ''5''" "str_int 9007199254742 = lit ''9007199254742''"
  by (simp_all add: str_int_def str_nat.simps digit_char_def lit_def)

lemma format_distance_meters_misrounded:
  "format_distance_meters m 9007199254742501 = Inr (lit ''9007199254742 km'')"
proof -
  have e1: "exponent 9007199254742501 = 53"
    by (rule exponent_unique) (simp_all add: pow2_def)
  have fl1: "\<lfloor>9007199254742501 / 2 :: rat\<rfloor> = 4503599627371250"
    by (simp add: floor_eq_iff)
  have r1: "round_double 9007199254742501 = 9007199254742500"
    by (simp add: round_double_def e1 pow2_def round_half_even_def Let_def fl1)
  have f: "float_of_int 9007199254742501 = Inr 9007199254742500"
    by (simp add: float_of_int_def r1)
  have e2: "exponent (18014398509485 / 2) = 43"
    by (rule exponent_unique) (simp_all add: pow2_def)
  have r2: "round_double (18014398509485 / 2) = 18014398509485 / 2"
    by (simp add: round_double_def e2 pow2_def round_half_even_def Let_def)
  have fl2: "\<lfloor>18014398509485 / 2 :: rat\<rfloor> = 9007199254742"
    by (simp add: floor_eq_iff)
  have h: "round_half_even (18014398509485 / 2) = 9007199254742"
    by (simp add: round_half_even_def Let_def fl2)
  have "\<bar>9007199254742 :: int\<bar> < 10 ^ Suc 15" by simp
  then have "int_digits 9007199254742 \<le> Suc 15" by (rule int_digits_le)
  then have s: "str_of_int m 9007199254742 = Inr (str_int 9007199254742)"
    by (intro str_of_int_short) simp
  show ?thesis
    by (simp add: format_distance_meters_def f r2 h s str_int_numbers lit_append [symmetric])
qed

lemma format_distance_meters_51000: "format_distance_meters m 51000 = Inr (lit ''51 km'')"
proof -
  obtain r where r: "format_distance_meters m 51000 = Inr (str_int r @ lit '' km'')"
    and c: "\<bar>1000 * r - 51000\<bar> \<le> 500"
    using format_distance_meters_large [of 51000 m] by auto
  from c have "r = 51" by arith
  with r show ?thesis by (simp add: str_int_numbers lit_def)
qed

text \<open>
  Claim C7, as stated, fails for large numbers of meters. From \<open>2 ^ 1024\<close> on (in
  fact a little below), the conversion to a float that the division starts with raises
  \<open>OverflowError\<close>. And above \<open>2 ^ 53\<close> the float is no longer the exact number of
  meters: 9007199254742501 meters are 9007199254742.501 km, whose nearest integer is
  9007199254743, but the result names 9007199254742.
\<close>

theorem format_distance_meters_beyond_double:
  "format_distance_meters 4300 (2 ^ 1024) = Inl OverflowError
   \<and> format_distance_meters 4300 9007199254742501 = Inr (lit ''9007199254742 km'')"
proof -
  have "format_distance_meters 4300 (2 ^ 1024) = Inl OverflowError"
    by (simp only: format_distance_meters_def float_of_int_overflow sum.case)
  then show ?thesis using format_distance_meters_misrounded [of 4300] by (rule conjI)
qed

text \<open>
  Claim C7, amended. For every number of meters from 0 to below \<open>2 ^ 53\<close>: from 10000
  meters on, the result is an integer \<open>r\<close> followed by \<open>km\<close>, and \<open>r\<close> is an integer
  nearest to the number of kilometres (\<open>1000 * r\<close> differs from the meters by 500 at
  most); below 10000 meters the result is a decimal with exactly one digit after the
  point followed by \<open>km\<close>, nearest to the number of kilometres (\<open>q\<close> tenths, where
  \<open>100 * q\<close> differs from the meters by 50 at most). The digit limit plays no part.
\<close>

theorem format_distance_meters_rounds:
  assumes "0 \<le> meters" and "meters < 2 ^ 53"
  shows "(10000 \<le> meters \<longrightarrow>
            (\<exists>r. format_distance_meters max_str_digits meters = Inr (str_int r @ lit '' km'')
                \<and> \<bar>1000 * r - meters\<bar> \<le> 500))
       \<and> (meters < 10000 \<longrightarrow>
            (\<exists>q. format_distance_meters max_str_digits meters
                    = Inr (str_int (q div 10) @ lit ''.'' @ str_int (q mod 10) @ lit '' km'')
                \<and> 0 \<le> q \<and> q mod 10 < 10 \<and> \<bar>100 * q - meters\<bar> \<le> 50))"
proof (intro conjI impI)
  assume "10000 \<le> meters"
  then show "\<exists>r. format_distance_meters max_str_digits meters = Inr (str_int r @ lit '' km'')
                \<and> \<bar>1000 * r - meters\<bar> \<le> 500"
    using assms(2) by (rule format_distance_meters_large)
next
  assume "meters < 10000"
  with assms(1) obtain q where
    "format_distance_meters max_str_digits meters
       = Inr (str_int (q div 10) @ lit ''.'' @ str_int (q mod 10) @ lit '' km'')"
    "0 \<le> q" "\<bar>100 * q - meters\<bar> \<le> 50"
    using format_distance_meters_small [of meters max_str_digits] by blast
  moreover have "q mod 10 < 10" by simp
  ultimately show "\<exists>q. format_distance_meters max_str_digits meters
                    = Inr (str_int (q div 10) @ lit ''.'' @ str_int (q mod 10) @ lit '' km'')
                \<and> 0 \<le> q \<and> q mod 10 < 10 \<and> \<bar>100 * q - meters\<bar> \<le> 50"
    by blast
qed

theorem format_distance_meters_rounds_witness:
  "format_distance_meters 4300 51000 = Inr (lit ''51 km'')
   \<and> format_distance_meters 4300 5000 = Inr (lit ''5.0 km'')"
proof -
  have "\<exists>r. format_distance_meters 4300 51000 = Inr (str_int r @ lit '' km'')
           \<and> \<bar>1000 * r - 51000\<bar> \<le> 500"
    using format_distance_meters_rounds [of 51000 4300] by simp
  then obtain r where r: "format_distance_meters 4300 51000 = Inr (str_int r @ lit '' km'')"
    and c: "\<bar>1000 * r - 51000\<bar> \<le> 500" by blast
  from c have "r = 51" by arith
  with r have a: "format_distance_meters 4300 51000 = Inr (lit ''51 km'')"
    by (simp add: str_int_numbers lit_def)
  have "\<exists>q. format_distance_meters 4300 5000
                = Inr (str_int (q div 10) @ lit ''.'' @ str_int (q mod 10) @ lit '' km'')
           \<and> 0 \<le> q \<and> q mod 10 < 10 \<and> \<bar>100 * q - 5000\<bar> \<le> 50"
    using format_distance_meters_rounds [of 5000 4300] by simp
  then obtain q where q: "format_distance_meters 4300 5000
                = Inr (str_int (q div 10) @ lit ''.'' @ str_int (q mod 10) @ lit '' km'')"
    and d: "\<bar>100 * q - 5000\<bar> \<le> 50" by blast
  from d have "q = 50" by arith
  with q have b: "format_distance_meters 4300 5000 = Inr (lit ''5.0 km'')"
    by (simp add: str_int_numbers str_int_0 lit_def)
  from a b show ?thesis by (rule conjI)
qed

end
